theory Spec2Isabelle
  imports
    Complex_Main
    "HOL-Library.Multiset"
    "HOL-Library.Char_ord"
    "HOL-Library.List_Lexorder"
    "HOL-Library.Product_Lexorder"
begin

section \<open>Documents of the \<open>plp_bookstore.books\<close> collection\<close>

text \<open>
  The two scripts (\<open>insert_books.js\<close>, \<open>queries.js\<close>) hold no data structure of their
  own: every statement is a call of the document database's client on the collection
  \<open>col\<close>. The embedding therefore has two layers: the calls of the scripts, transcribed
  one by one, and the documented behaviour of the client calls they use
  (\<open>insertMany\<close>, \<open>find\<close> with \<open>sort\<close>/\<open>skip\<close>/\<open>limit\<close>, \<open>findOneAndUpdate\<close>,
  \<open>deleteOne\<close>, \<open>aggregate\<close>, \<open>createIndex\<close>, \<open>explain\<close>).

  A stored value is a scalar. JavaScript numbers (the years, page counts and prices of
  the fixture) are read as exact rationals: \<open>14.99\<close> is \<open>1499/100\<close>; the rounding
  of binary floating point is not modelled. A document is the list of its fields in
  order, as a JavaScript object literal is.
\<close>

datatype bval = Null | Num rat | Str string | ObjId nat | Bool bool

type_synonym doc = "(string \<times> bval) list"

text \<open>
  The comparison order of the datastore across types: null, then numbers, then strings
  (compared byte by byte), then object identifiers, then booleans. The order is given by
  an embedding into a lexicographically ordered triple.
\<close>

fun bson_key :: "bval \<Rightarrow> nat \<times> rat \<times> string" where
  "bson_key Null = (1, 0, [])"
| "bson_key (Num r) = (2, r, [])"
| "bson_key (Str s) = (3, 0, s)"
| "bson_key (ObjId n) = (4, of_nat n, [])"
| "bson_key (Bool b) = (5, (if b then 1 else 0), [])"

text \<open>A path \<open>'$f'\<close> of a sort or group key reads a missing field as null.\<close>

definition field :: "string \<Rightarrow> doc \<Rightarrow> bval" where
  "field f d = (case map_of d f of None \<Rightarrow> Null | Some v \<Rightarrow> v)"

definition sort_field :: "string \<Rightarrow> doc \<Rightarrow> nat \<times> rat \<times> string" where
  "sort_field f d = bson_key (field f d)"

text \<open>
  An inclusion projection \<open>{ f1: 1, ..., _id: 0 }\<close> keeps the listed fields, in the
  document's own order, and drops the rest (so the internal identifier too).
\<close>

definition project :: "string list \<Rightarrow> doc \<Rightarrow> doc" where
  "project fs d = filter (\<lambda>kv. fst kv \<in> set fs) d"

text \<open>Query predicates: \<open>{ f: s }\<close> on a string, \<open>{ f: b }\<close> on a boolean, \<open>{ f: { $gt: y } }\<close>
  and \<open>{ f: { $gte: y } }\<close> on a number. A comparison with a number matches numbers only.\<close>

definition eq_str :: "string \<Rightarrow> string \<Rightarrow> doc \<Rightarrow> bool" where
  "eq_str f s d = (map_of d f = Some (Str s))"

definition eq_bool :: "string \<Rightarrow> bool \<Rightarrow> doc \<Rightarrow> bool" where
  "eq_bool f b d = (map_of d f = Some (Bool b))"

definition gt_num :: "string \<Rightarrow> rat \<Rightarrow> doc \<Rightarrow> bool" where
  "gt_num f y d = (case map_of d f of Some (Num x) \<Rightarrow> y < x | _ \<Rightarrow> False)"

definition gte_num :: "string \<Rightarrow> rat \<Rightarrow> doc \<Rightarrow> bool" where
  "gte_num f y d = (case map_of d f of Some (Num x) \<Rightarrow> y \<le> x | _ \<Rightarrow> False)"

definition match_all :: "doc \<Rightarrow> bool" where
  "match_all d = True"

section \<open>The fixture of \<open>insert_books.js\<close>\<close>

definition book ::
  "string \<Rightarrow> string \<Rightarrow> string \<Rightarrow> rat \<Rightarrow> rat \<Rightarrow> bool \<Rightarrow> rat \<Rightarrow> string \<Rightarrow> doc" where
  "book t a g y p s n pub =
     [(''title'', Str t), (''author'', Str a), (''genre'', Str g),
      (''published_year'', Num y), (''price'', Num p), (''in_stock'', Bool s),
      (''pages'', Num n), (''publisher'', Str pub)]"

definition sampleBooks :: "doc list" where
  "sampleBooks =
    [book ''The Silent Orchard'' ''Ava Harper'' ''Fiction'' 2018 (1499 / 100) True 320
       ''Harbor Press'',
     book ''Learning MongoDB'' ''Samuel Reed'' ''Non-Fiction'' 2021 (79 / 2) True 280
       ''TechBooks'',
     book ''Galaxies Apart'' ''Maya Chen'' ''Science Fiction'' 2012 12 False 410
       ''Orbit House'',
     book ''The Last Alchemist'' ''Ava Harper'' ''Fantasy'' 2005 (999 / 100) True 450
       ''Mythic Press'',
     book ''Mysteries of Grey Manor'' ''Derek Cole'' ''Mystery'' 2016 (23 / 2) False 370
       ''Detective House'',
     book ''A Short History of Timekeeping'' ''Nina Patel'' ''History'' 1998 24 True 220
       ''Chronicle Pub'',
     book ''Romance on 5th Avenue'' ''Liam Brooks'' ''Romance'' 2019 (799 / 100) True 300
       ''LoveReads'',
     book ''Data Patterns in the Wild'' ''Samuel Reed'' ''Non-Fiction'' 2015 45 False 500
       ''TechBooks'',
     book ''Echoes of Tomorrow'' ''Maya Chen'' ''Science Fiction'' 2020 (75 / 4) True 360
       ''Orbit House'',
     book ''Memoirs of a Voyager'' ''Isabella Stone'' ''Biography'' 2002 16 True 410
       ''LifeStory Press'',
     book ''Practical Indexing'' ''Samuel Reed'' ''Non-Fiction'' 2010 (2999 / 100) True 200
       ''TechBooks'',
     book ''Shadows Under the Ivy'' ''Derek Cole'' ''Mystery'' 2022 (27 / 2) True 330
       ''Detective House'']"

section \<open>The collection and the client calls\<close>

text \<open>
  Errors of the client, as values. A call of the client returns (the script awaits it)
  either a result or one of these; the script's \<open>try\<close>/\<open>catch\<close> is a case split on
  the sum.
\<close>

datatype error =
    ConnectionFailure
  | InvalidScheme
  | DuplicateKey bval
  | NegativeSkip int
  | NonNumeric bval
  | DivideByZero
  | IndexConflict string
  | ServerError nat

text \<open>
  The collection: its documents in natural (insertion) order, the supply of fresh
  object identifiers (the client library creates one for every inserted document that
  has none; they never repeat), and the secondary indexes, by name.
\<close>

record collection =
  docs :: "doc list"
  next_oid :: nat
  indexes :: "(string \<times> (string \<times> int) list) list"

definition empty_collection :: collection where
  "empty_collection = \<lparr>docs = [], next_oid = 0, indexes = []\<rparr>"

subsection \<open>\<open>insertMany(docs, { ordered })\<close>\<close>

text \<open>
  The client gives every document without an identifier a fresh one; the server stores
  the identifier as the first field. A document whose identifier is already stored is
  refused (duplicate key). With \<open>ordered: true\<close> the batch stops at the first refused
  document; otherwise the remaining documents are still tried. The call fails with the
  first error when a document was refused, and resolves to the number of inserted
  documents otherwise.
\<close>

definition id_first :: "bval \<Rightarrow> doc \<Rightarrow> doc" where
  "id_first v d = (''_id'', v) # filter (\<lambda>kv. fst kv \<noteq> ''_id'') d"

fun prepare_docs :: "nat \<Rightarrow> doc list \<Rightarrow> doc list \<times> nat" where
  "prepare_docs n [] = ([], n)"
| "prepare_docs n (d # ds) =
     (if field ''_id'' d = Null
      then (let (ps, m) = prepare_docs (Suc n) ds in (id_first (ObjId n) d # ps, m))
      else (let (ps, m) = prepare_docs n ds in (id_first (field ''_id'' d) d # ps, m)))"

definition insert_one :: "doc \<Rightarrow> doc list \<Rightarrow> error + doc list" where
  "insert_one d stored =
     (if field ''_id'' d \<in> set (map (field ''_id'') stored)
      then Inl (DuplicateKey (field ''_id'' d))
      else Inr (stored @ [d]))"

fun insert_batch :: "bool \<Rightarrow> doc list \<Rightarrow> doc list \<Rightarrow> error option \<times> nat \<times> doc list" where
  "insert_batch ordered [] stored = (None, 0, stored)"
| "insert_batch ordered (d # ds) stored =
     (case insert_one d stored of
        Inl e \<Rightarrow>
          (if ordered then (Some e, 0, stored)
           else (let (e', n, stored') = insert_batch ordered ds stored
                 in (Some e, n, stored')))
      | Inr stored1 \<Rightarrow>
          (let (e', n, stored') = insert_batch ordered ds stored1
           in (e', Suc n, stored')))"

definition insertMany :: "doc list \<Rightarrow> bool \<Rightarrow> collection \<Rightarrow> (error + nat) \<times> collection" where
  "insertMany ds ordered c =
     (let (ps, m) = prepare_docs (next_oid c) ds;
          (e, n, stored) = insert_batch ordered ps (docs c);
          c' = c\<lparr>docs := stored, next_oid := m\<rparr>
      in (case e of None \<Rightarrow> (Inr n, c') | Some err \<Rightarrow> (Inl err, c')))"

subsection \<open>\<open>find(filter, { projection })\<close> and its cursor\<close>

text \<open>
  \<open>find\<close> builds a cursor; \<open>sort\<close>, \<open>skip\<close> and \<open>limit\<close> set its options; \<open>toArray\<close>
  sends the query. The server filters, sorts, skips, limits and projects, in that order.
  A negative skip is refused by the server.

  The sorter is stable in both directions: documents whose sort keys are equal keep
  the order in which they reach it. That order is the parameter \<open>feed\<close>, some
  rearrangement of the matching documents; a scan of the collection in natural order is
  the identity. A direction \<open>1\<close> is ascending, \<open>-1\<close> descending (the ascending
  sort of the reversed input, reversed, so that ties stay in arrival order).
\<close>

record cursor =
  c_filter :: "doc \<Rightarrow> bool"
  c_projection :: "string list"
  c_sort :: "(string \<times> int) option"
  c_skip :: int
  c_limit :: "nat option"

definition find :: "(doc \<Rightarrow> bool) \<Rightarrow> string list \<Rightarrow> cursor" where
  "find flt proj =
     \<lparr>c_filter = flt, c_projection = proj, c_sort = None, c_skip = 0, c_limit = None\<rparr>"

definition cursor_sort :: "string \<times> int \<Rightarrow> cursor \<Rightarrow> cursor" where
  "cursor_sort spec cur = cur\<lparr>c_sort := Some spec\<rparr>"

definition cursor_skip :: "int \<Rightarrow> cursor \<Rightarrow> cursor" where
  "cursor_skip n cur = cur\<lparr>c_skip := n\<rparr>"

definition cursor_limit :: "nat \<Rightarrow> cursor \<Rightarrow> cursor" where
  "cursor_limit n cur = cur\<lparr>c_limit := Some n\<rparr>"

definition sort_desc :: "('a \<Rightarrow> 'k::linorder) \<Rightarrow> 'a list \<Rightarrow> 'a list" where
  "sort_desc k xs = rev (sort_key k (rev xs))"

definition sort_docs :: "(doc list \<Rightarrow> doc list) \<Rightarrow> string \<times> int \<Rightarrow> doc list \<Rightarrow> doc list" where
  "sort_docs feed spec ds =
     (if 0 < snd spec then sort_key (sort_field (fst spec)) (feed ds)
      else sort_desc (sort_field (fst spec)) (feed ds))"

definition toArray :: "(doc list \<Rightarrow> doc list) \<Rightarrow> cursor \<Rightarrow> collection \<Rightarrow> error + doc list" where
  "toArray feed cur c =
     (if c_skip cur < 0 then Inl (NegativeSkip (c_skip cur))
      else
        (let matched = filter (c_filter cur) (docs c);
             ordered = (case c_sort cur of None \<Rightarrow> matched
                        | Some spec \<Rightarrow> sort_docs feed spec matched);
             skipped = drop (nat (c_skip cur)) ordered;
             paged = (case c_limit cur of None \<Rightarrow> skipped | Some n \<Rightarrow> take n skipped)
         in Inr (map (project (c_projection cur)) paged)))"

subsection \<open>\<open>findOneAndUpdate\<close> and \<open>deleteOne\<close>\<close>

text \<open>
  \<open>findOneAndUpdate(filter, { $set: { f: v } }, { returnDocument })\<close> changes the first
  matching document in natural order and resolves to a result object whose field
  \<open>value\<close> is that document (before or after the change, as asked), or null when no
  document matches; nothing is inserted then (no upsert is asked for).
\<close>

datatype return_document = Before | After

record modify_result =
  mr_value :: "doc option"

definition set_field :: "string \<Rightarrow> bval \<Rightarrow> doc \<Rightarrow> doc" where
  "set_field f v d =
     (if f \<in> fst ` set d then map (\<lambda>kv. if fst kv = f then (f, v) else kv) d
      else d @ [(f, v)])"

fun update_first ::
  "(doc \<Rightarrow> bool) \<Rightarrow> (doc \<Rightarrow> doc) \<Rightarrow> return_document \<Rightarrow> doc list \<Rightarrow> doc option \<times> doc list" where
  "update_first p u rd [] = (None, [])"
| "update_first p u rd (d # ds) =
     (if p d then (Some (case rd of Before \<Rightarrow> d | After \<Rightarrow> u d), u d # ds)
      else (let (r, ds') = update_first p u rd ds in (r, d # ds')))"

definition findOneAndUpdate ::
  "(doc \<Rightarrow> bool) \<Rightarrow> (doc \<Rightarrow> doc) \<Rightarrow> return_document \<Rightarrow> collection
     \<Rightarrow> modify_result \<times> collection" where
  "findOneAndUpdate p u rd c =
     (let (r, ds) = update_first p u rd (docs c)
      in (\<lparr>mr_value = r\<rparr>, c\<lparr>docs := ds\<rparr>))"

fun delete_first :: "(doc \<Rightarrow> bool) \<Rightarrow> doc list \<Rightarrow> nat \<times> doc list" where
  "delete_first p [] = (0, [])"
| "delete_first p (d # ds) =
     (if p d then (1, ds) else (let (n, ds') = delete_first p ds in (n, d # ds')))"

definition deleteOne :: "(doc \<Rightarrow> bool) \<Rightarrow> collection \<Rightarrow> nat \<times> collection" where
  "deleteOne p c = (let (n, ds) = delete_first p (docs c) in (n, c\<lparr>docs := ds\<rparr>))"

subsection \<open>\<open>aggregate\<close>: the stages the pipelines use\<close>

text \<open>
  \<open>$group\<close> runs over the documents once, keeping one accumulator per distinct key in
  the order the keys are first seen. The accumulators: \<open>$sum: 1\<close> counts; \<open>$avg\<close> adds
  up the numeric values and counts them, and ignores every other value and a missing
  field (no numeric value at all gives null); \<open>$push\<close> appends the value of a field
  that is present.
\<close>

fun upd_group :: "bval \<Rightarrow> 'a \<Rightarrow> ('a \<Rightarrow> 'a) \<Rightarrow> (bval \<times> 'a) list \<Rightarrow> (bval \<times> 'a) list" where
  "upd_group k init step [] = [(k, step init)]"
| "upd_group k init step ((k', a) # gs) =
     (if k' = k then (k', step a) # gs else (k', a) # upd_group k init step gs)"

definition group_stage ::
  "(doc \<Rightarrow> bval) \<Rightarrow> 'a \<Rightarrow> (doc \<Rightarrow> 'a \<Rightarrow> 'a) \<Rightarrow> doc list \<Rightarrow> (bval \<times> 'a) list" where
  "group_stage key init step ds = foldl (\<lambda>gs d. upd_group (key d) init (step d) gs) [] ds"

definition avg_step :: "string \<Rightarrow> doc \<Rightarrow> rat \<times> nat \<Rightarrow> rat \<times> nat" where
  "avg_step f d a = (case map_of d f of Some (Num p) \<Rightarrow> (fst a + p, Suc (snd a)) | _ \<Rightarrow> a)"

definition avg_final :: "rat \<times> nat \<Rightarrow> bval" where
  "avg_final a = (if snd a = 0 then Null else Num (fst a / of_nat (snd a)))"

definition push_step :: "string \<Rightarrow> doc \<Rightarrow> bval list \<Rightarrow> bval list" where
  "push_step f d vs = (case map_of d f of None \<Rightarrow> vs | Some v \<Rightarrow> vs @ [v])"

text \<open>
  The arithmetic of \<open>$addFields\<close>: \<open>$divide\<close> divides two numbers, gives null when an
  operand is null or missing, and is an error on anything else; \<open>$floor\<close> and
  \<open>$multiply\<close> likewise. An error in one document fails the whole pipeline.
\<close>

definition is_num :: "bval \<Rightarrow> bool" where
  "is_num v = (case v of Num x \<Rightarrow> True | _ \<Rightarrow> False)"

definition divide_e :: "bval \<Rightarrow> bval \<Rightarrow> error + bval" where
  "divide_e a b =
     (case (a, b) of
        (Num x, Num y) \<Rightarrow> (if y = 0 then Inl DivideByZero else Inr (Num (x / y)))
      | _ \<Rightarrow> (if a = Null \<or> b = Null then Inr Null
               else Inl (NonNumeric (if is_num a then b else a))))"

definition floor_e :: "bval \<Rightarrow> error + bval" where
  "floor_e a =
     (case a of Num x \<Rightarrow> Inr (Num (of_int \<lfloor>x\<rfloor>)) | Null \<Rightarrow> Inr Null | _ \<Rightarrow> Inl (NonNumeric a))"

definition multiply_e :: "bval \<Rightarrow> bval \<Rightarrow> error + bval" where
  "multiply_e a b =
     (case a of
        Num x \<Rightarrow> (case b of Num y \<Rightarrow> Inr (Num (x * y)) | Null \<Rightarrow> Inr Null
                  | _ \<Rightarrow> Inl (NonNumeric b))
      | Null \<Rightarrow> Inr Null
      | _ \<Rightarrow> Inl (NonNumeric a))"

fun add_fields :: "string \<Rightarrow> (doc \<Rightarrow> error + bval) \<Rightarrow> doc list \<Rightarrow> error + doc list" where
  "add_fields f e [] = Inr []"
| "add_fields f e (d # ds) =
     (case e d of
        Inl err \<Rightarrow> Inl err
      | Inr v \<Rightarrow> (case add_fields f e ds of
                    Inl err \<Rightarrow> Inl err
                  | Inr ds' \<Rightarrow> Inr (set_field f v d # ds')))"

subsection \<open>\<open>createIndex\<close> and \<open>explain\<close>\<close>

text \<open>
  Creating an index that exists under the same name with the same keys does nothing;
  a name or a key pattern already taken otherwise is a conflict. What \<open>explain\<close>
  reports is the server's: the reply is a parameter of the run (\<open>planner\<close> below), and
  the script only picks four values out of it, with null for what the reply lacks.
\<close>

definition createIndex ::
  "(string \<times> int) list \<Rightarrow> string \<Rightarrow> collection \<Rightarrow> (error + string) \<times> collection" where
  "createIndex keys name c =
     (if (name, keys) \<in> set (indexes c) then (Inr name, c)
      else if name \<in> fst ` set (indexes c) \<or> keys \<in> snd ` set (indexes c)
      then (Inl (IndexConflict name), c)
      else (Inr name, c\<lparr>indexes := indexes c @ [(name, keys)]\<rparr>))"

record exec_stats =
  totalDocsExamined :: nat
  totalKeysExamined :: nat
  executionTimeMillis :: nat

record query_planner =
  winningPlan :: string

record explain_out =
  executionStats :: "exec_stats option"
  queryPlanner :: "query_planner option"

record explain_summary =
  sum_totalDocsExamined :: "nat option"
  sum_totalKeysExamined :: "nat option"
  sum_executionTimeMillis :: "nat option"
  sum_winningPlan :: "string option"

definition summary :: "explain_out \<Rightarrow> explain_summary" where
  "summary x =
     \<lparr>sum_totalDocsExamined = map_option totalDocsExamined (executionStats x),
      sum_totalKeysExamined = map_option totalKeysExamined (executionStats x),
      sum_executionTimeMillis = map_option executionTimeMillis (executionStats x),
      sum_winningPlan = map_option winningPlan (queryPlanner x)\<rparr>"

section \<open>The queries of \<open>queries.js\<close>\<close>

definition findByGenre :: "string \<Rightarrow> collection \<Rightarrow> error + doc list" where
  "findByGenre genre c =
     toArray (\<lambda>ds. ds) (find (eq_str ''genre'' genre) [''title'', ''author'', ''price'']) c"

definition findPublishedAfter :: "rat \<Rightarrow> collection \<Rightarrow> error + doc list" where
  "findPublishedAfter year c =
     toArray (\<lambda>ds. ds) (find (gt_num ''published_year'' year) [''title'', ''published_year'']) c"

definition findByAuthor :: "string \<Rightarrow> collection \<Rightarrow> error + doc list" where
  "findByAuthor author c =
     toArray (\<lambda>ds. ds) (find (eq_str ''author'' author) [''title'', ''genre'', ''price'']) c"

definition updatePriceByTitle :: "string \<Rightarrow> rat \<Rightarrow> collection \<Rightarrow> doc option \<times> collection" where
  "updatePriceByTitle title newPrice c =
     (let (res, c') =
            findOneAndUpdate (eq_str ''title'' title) (set_field ''price'' (Num newPrice)) After c
      in (mr_value res, c'))"

definition deleteByTitle :: "string \<Rightarrow> collection \<Rightarrow> nat \<times> collection" where
  "deleteByTitle title c = deleteOne (eq_str ''title'' title) c"

definition inStockAfter2010 :: "collection \<Rightarrow> error + doc list" where
  "inStockAfter2010 c =
     toArray (\<lambda>ds. ds)
       (find (\<lambda>d. eq_bool ''in_stock'' True d \<and> gt_num ''published_year'' 2010 d)
          [''title'', ''author'', ''price'']) c"

definition allProjected :: "collection \<Rightarrow> error + doc list" where
  "allProjected c = toArray (\<lambda>ds. ds) (find match_all [''title'', ''author'', ''price'']) c"

definition sortByPrice :: "(doc list \<Rightarrow> doc list) \<Rightarrow> int \<Rightarrow> collection \<Rightarrow> error + doc list" where
  "sortByPrice feed dir c =
     toArray feed (cursor_sort (''price'', dir) (find match_all [''title'', ''price''])) c"

definition pageSize :: nat where
  "pageSize = 5"

definition getPage :: "(doc list \<Rightarrow> doc list) \<Rightarrow> int \<Rightarrow> collection \<Rightarrow> error + doc list" where
  "getPage feed pageNumber c =
     (let skip = (pageNumber - 1) * int pageSize
      in toArray feed
           (cursor_limit pageSize
              (cursor_skip skip
                 (cursor_sort (''title'', 1) (find match_all [''title'', ''author''])))) c)"

record genre_row =
  genre_id :: bval
  averagePrice :: bval
  genre_count :: nat

record author_row =
  author_id :: bval
  author_count :: nat

record decade_row =
  decade_id :: bval
  decade_count :: nat
  titles :: "bval list"

text \<open>
  The three pipelines. The order in which \<open>$group\<close> hands its groups on to \<open>$sort\<close>
  is the server's: \<open>feed\<close> again (the identity when the groups come in the order their
  keys are first seen). \<open>$sort\<close> is stable, as for \<open>find\<close>.
\<close>

definition genre_groups :: "doc list \<Rightarrow> genre_row list" where
  "genre_groups ds =
     map (\<lambda>(k, a, n). \<lparr>genre_id = k, averagePrice = avg_final a, genre_count = n\<rparr>)
       (group_stage (field ''genre'') ((0, 0), 0)
          (\<lambda>d (a, n). (avg_step ''price'' d a, Suc n)) ds)"

definition avgPriceByGenre ::
  "(genre_row list \<Rightarrow> genre_row list) \<Rightarrow> collection \<Rightarrow> genre_row list" where
  "avgPriceByGenre feed c =
     sort_desc (\<lambda>r. bson_key (averagePrice r)) (feed (genre_groups (docs c)))"

definition author_groups :: "doc list \<Rightarrow> author_row list" where
  "author_groups ds =
     map (\<lambda>(k, n). \<lparr>author_id = k, author_count = n\<rparr>)
       (group_stage (field ''author'') 0 (\<lambda>d n. Suc n) ds)"

definition topAuthor ::
  "(author_row list \<Rightarrow> author_row list) \<Rightarrow> collection \<Rightarrow> author_row list" where
  "topAuthor feed c = take 1 (sort_desc author_count (feed (author_groups (docs c))))"

definition decade_of :: "doc \<Rightarrow> error + bval" where
  "decade_of d =
     (case divide_e (field ''published_year'' d) (Num 10) of
        Inl e \<Rightarrow> Inl e
      | Inr q \<Rightarrow> (case floor_e q of Inl e \<Rightarrow> Inl e | Inr fl \<Rightarrow> multiply_e fl (Num 10)))"

definition decade_groups :: "doc list \<Rightarrow> decade_row list" where
  "decade_groups ds =
     map (\<lambda>(k, n, ts). \<lparr>decade_id = k, decade_count = n, titles = ts\<rparr>)
       (group_stage (field ''decade'') (0, [])
          (\<lambda>d (n, ts). (Suc n, push_step ''title'' d ts)) ds)"

definition byDecade ::
  "(decade_row list \<Rightarrow> decade_row list) \<Rightarrow> collection \<Rightarrow> error + decade_row list" where
  "byDecade feed c =
     (case add_fields ''decade'' decade_of (docs c) of
        Inl e \<Rightarrow> Inl e
      | Inr ds \<Rightarrow> Inr (sort_key (\<lambda>r. bson_key (decade_id r)) (feed (decade_groups ds))))"

section \<open>The two scripts\<close>

text \<open>
  A run of a script is a process: what it has done so far that can be seen from outside
  (\<open>proc_trace\<close>: calls of \<open>client.connect()\<close> and \<open>client.close()\<close>, awaited calls that
  were rejected, lines written to the console), the number of client calls it has issued,
  the state of its connection (not yet open, open, released) and the collection. What
  the server, the network and the rest of the client library decide is the \<open>engine\<close>:
  which awaited call fails (by its number in the run, \<open>connect\<close> and \<open>close\<close>
  included) and with what, the order in which the documents of each sorted query reach
  the sorter (the queries are told apart by a tag), the replies to \<open>explain\<close>, and
  which connection strings with a valid scheme the parser still refuses.
\<close>

datatype outv =
    Text string
  | Docs "doc list"
  | MaybeDoc "doc option"
  | Count nat
  | GenreRows "genre_row list"
  | AuthorRows "author_row list"
  | DecadeRows "decade_row list"
  | Summary explain_summary
  | Err error

datatype event =
    Connect
  | Close
  | Rejected error
  | ConsoleLog "outv list"
  | ConsoleError "outv list"
  | Unhandled error

datatype conn_state = NotConnected | Connected | Released

record process =
  proc_trace :: "event list"
  calls :: nat
  conn :: conn_state
  col :: collection

record engine =
  fault :: "nat \<Rightarrow> error option"
  feed_docs :: "string \<Rightarrow> doc list \<Rightarrow> doc list"
  feed_genres :: "genre_row list \<Rightarrow> genre_row list"
  feed_authors :: "author_row list \<Rightarrow> author_row list"
  feed_decades :: "decade_row list \<Rightarrow> decade_row list"
  planner :: "string \<Rightarrow> collection \<Rightarrow> explain_out"
  uri_refused :: "string \<Rightarrow> error option"

definition start :: "collection \<Rightarrow> process" where
  "start c = \<lparr>proc_trace = [], calls = 0, conn = NotConnected, col = c\<rparr>"

definition say :: "event \<Rightarrow> process \<Rightarrow> process" where
  "say e w = w\<lparr>proc_trace := proc_trace w @ [e]\<rparr>"

text \<open>
  \<open>await call\<close>: the call fails when the engine says so (then it has no effect) or when
  the call itself is refused; a failure is a rejection, recorded in the trace.
\<close>

definition await ::
  "engine \<Rightarrow> (collection \<Rightarrow> (error + 'a) \<times> collection) \<Rightarrow> process \<Rightarrow> (error + 'a) \<times> process" where
  "await eng call w =
     (case fault eng (calls w) of
        Some e \<Rightarrow> (Inl e, say (Rejected e) (w\<lparr>calls := Suc (calls w)\<rparr>))
      | None \<Rightarrow>
          (let (r, c') = call (col w);
               w' = w\<lparr>calls := Suc (calls w), col := c'\<rparr>
           in (case r of Inl e \<Rightarrow> (Inl e, say (Rejected e) w') | Inr v \<Rightarrow> (Inr v, w'))))"

text \<open>
  The statements of a \<open>try\<close> block, of four kinds: \<open>await client.connect()\<close>, which
  opens the connection when it resolves; \<open>console.log(...)\<close> of values at hand; an
  awaited call whose result is then logged; an awaited call whose result is dropped. The
  block stops at the first rejection.
\<close>

datatype action =
    ClientConnect
  | Log "outv list"
  | AwaitLog "collection \<Rightarrow> (error + outv list) \<times> collection"
  | Await "collection \<Rightarrow> (error + unit) \<times> collection"

fun perform :: "engine \<Rightarrow> action \<Rightarrow> process \<Rightarrow> error option \<times> process" where
  "perform eng ClientConnect w =
     (case await eng (\<lambda>c. (Inr (), c)) (say Connect w) of
        (Inl e, w') \<Rightarrow> (Some e, w') | (Inr u, w') \<Rightarrow> (None, w'\<lparr>conn := Connected\<rparr>))"
| "perform eng (Log vs) w = (None, say (ConsoleLog vs) w)"
| "perform eng (AwaitLog call) w =
     (case await eng call w of
        (Inl e, w') \<Rightarrow> (Some e, w') | (Inr vs, w') \<Rightarrow> (None, say (ConsoleLog vs) w'))"
| "perform eng (Await call) w =
     (case await eng call w of
        (Inl e, w') \<Rightarrow> (Some e, w') | (Inr u, w') \<Rightarrow> (None, w'))"

fun perform_all :: "engine \<Rightarrow> action list \<Rightarrow> process \<Rightarrow> error option \<times> process" where
  "perform_all eng [] w = (None, w)"
| "perform_all eng (a # rest) w =
     (case perform eng a w of
        (Some e, w') \<Rightarrow> (Some e, w')
      | (None, w') \<Rightarrow> perform_all eng rest w')"

text \<open>
  Both scripts are one \<open>try { body } catch (err) { console.error(label, err) }
  finally { await client.close(); console.log('Connection closed.') }\<close>. When \<open>close\<close>
  resolves, an open connection is released (and a client that never connected stays as it
  is). A rejection of \<open>close\<close> itself releases nothing, leaves the \<open>finally\<close> block
  and rejects the promise of the function.
\<close>

definition try_catch_finally ::
  "engine \<Rightarrow> action list \<Rightarrow> string \<Rightarrow> process \<Rightarrow> (error + unit) \<times> process" where
  "try_catch_finally eng body label w =
     (let (r, w1) = perform_all eng body w;
          w2 = (case r of Some e \<Rightarrow> say (ConsoleError [Text label, Err e]) w1 | None \<Rightarrow> w1);
          (rc, w3) = await eng (\<lambda>c. (Inr (), c)) (say Close w2)
      in (case rc of
            Inl e \<Rightarrow> (Inl e, w3)
          | Inr u \<Rightarrow>
              (Inr (),
               say (ConsoleLog [Text ''Connection closed.''])
                 (w3\<lparr>conn := (if conn w3 = Connected then Released else conn w3)\<rparr>))))"

text \<open>
  The last statement of each script calls the function and lets its promise go; the
  runtime reports a rejected promise that nobody handles on standard error.
\<close>

definition top_level :: "(error + unit) \<times> process \<Rightarrow> process" where
  "top_level rw = (case rw of (Inl e, w) \<Rightarrow> say (Unhandled e) w | (Inr u, w) \<Rightarrow> w)"

definition MONGODB_URI :: "string option \<Rightarrow> string" where
  "MONGODB_URI env =
     (case env of None \<Rightarrow> ''mongodb://localhost:27017''
      | Some u \<Rightarrow> (if u = [] then ''mongodb://localhost:27017'' else u))"

text \<open>
  \<open>new MongoClient(MONGODB_URI, options)\<close> parses the connection string and throws when
  it is malformed. A string that begins with neither \<open>mongodb://\<close> nor
  \<open>mongodb+srv://\<close> is refused at once; what else the parser refuses (an empty host,
  an unknown option) is the engine's \<open>uri_refused\<close>. In both scripts the statement
  stands before the \<open>try\<close>: when it throws, the function's promise is rejected and
  neither the \<open>catch\<close> nor the \<open>finally\<close> block runs.
\<close>

definition has_scheme :: "string \<Rightarrow> bool" where
  "has_scheme u = (take 10 u = ''mongodb://'' \<or> take 14 u = ''mongodb+srv://'')"

definition new_MongoClient :: "engine \<Rightarrow> string \<Rightarrow> error option" where
  "new_MongoClient eng uri = (if has_scheme uri then uri_refused eng uri else Some InvalidScheme)"

definition lift_pure :: "(collection \<Rightarrow> error + 'a) \<Rightarrow> ('a \<Rightarrow> outv list) \<Rightarrow> collection
     \<Rightarrow> (error + outv list) \<times> collection" where
  "lift_pure q shown c = (case q c of Inl e \<Rightarrow> (Inl e, c) | Inr v \<Rightarrow> (Inr (shown v), c))"

subsection \<open>\<open>insert_books.js\<close>\<close>

definition main_body :: "string option \<Rightarrow> action list" where
  "main_body env =
     [ClientConnect,
      Log [Text ''Connected to MongoDB:'', Text (MONGODB_URI env)],
      AwaitLog (\<lambda>c. case insertMany sampleBooks True c of
                  (Inl e, c') \<Rightarrow> (Inl e, c')
                | (Inr n, c') \<Rightarrow>
                    (Inr [Text ''Inserted '', Count n,
                          Text '' documents into plp_bookstore.books''], c'))]"

definition main :: "engine \<Rightarrow> string option \<Rightarrow> process \<Rightarrow> (error + unit) \<times> process" where
  "main eng env w =
     (case new_MongoClient eng (MONGODB_URI env) of
        Some e \<Rightarrow> (Inl e, w)
      | None \<Rightarrow> try_catch_finally eng (main_body env) ''Error inserting books:'' w)"

definition insert_books :: "engine \<Rightarrow> string option \<Rightarrow> collection \<Rightarrow> process" where
  "insert_books eng env c = top_level (main eng env (start c))"

subsection \<open>\<open>queries.js\<close>\<close>

definition nl :: "string \<Rightarrow> string" where
  "nl s = CHR 0x0A # s"

definition quoted :: "string \<Rightarrow> string" where
  "quoted s = CHR 0x22 # s @ [CHR 0x22]"

definition explain :: "engine \<Rightarrow> string \<Rightarrow> collection \<Rightarrow> (error + outv list) \<times> collection" where
  "explain eng query c = (Inr [Summary (summary (planner eng query c))], c)"

definition run_body :: "engine \<Rightarrow> action list" where
  "run_body eng =
     [ClientConnect,
      Log [Text ''Connected to plp_bookstore.books''],
      Log [Text (nl ''--- Task 2: Basic CRUD Operations ---'')],
      Log [Text (nl (''1) Find all books in genre '' @ quoted ''Non-Fiction'' @ '':''))],
      AwaitLog (lift_pure (findByGenre ''Non-Fiction'') (\<lambda>ds. [Docs ds])),
      Log [Text (nl ''2) Find books published after 2015:'')],
      AwaitLog (lift_pure (findPublishedAfter 2015) (\<lambda>ds. [Docs ds])),
      Log [Text (nl (''3) Find books by author '' @ quoted ''Samuel Reed'' @ '':''))],
      AwaitLog (lift_pure (findByAuthor ''Samuel Reed'') (\<lambda>ds. [Docs ds])),
      Log [Text (nl (''4) Update price of '' @ quoted ''The Silent Orchard'' @ '' to 12.49:''))],
      AwaitLog (\<lambda>c. let (v, c') = updatePriceByTitle ''The Silent Orchard'' (1249 / 100) c
                in (Inr [MaybeDoc v], c')),
      Log [Text (nl (''5) Delete book '' @ quoted ''Memoirs of a Voyager'' @ '':''))],
      AwaitLog (\<lambda>c. let (n, c') = deleteByTitle ''Memoirs of a Voyager'' c
                in (Inr [Text ''deletedCount:'', Count n], c')),
      Log [Text (nl ''--- Task 3: Advanced Queries ---'')],
      Log [Text (nl ''1) Books in stock and published after 2010 (title, author, price):'')],
      AwaitLog (lift_pure inStockAfter2010 (\<lambda>ds. [Docs ds])),
      Log [Text (nl ''2) Projection-only example (title, author, price) for all books:'')],
      AwaitLog (lift_pure allProjected (\<lambda>ds. [Docs ds])),
      Log [Text (nl ''3) Sort by price ascending (title, price):'')],
      AwaitLog (lift_pure (sortByPrice (feed_docs eng ''price asc'') 1) (\<lambda>ds. [Docs ds])),
      Log [Text (nl ''4) Sort by price descending (title, price):'')],
      AwaitLog (lift_pure (sortByPrice (feed_docs eng ''price desc'') (- 1)) (\<lambda>ds. [Docs ds])),
      Log [Text (nl ''5) Pagination (page size = 5):'')],
      AwaitLog (lift_pure (getPage (feed_docs eng ''page 1'') 1) (\<lambda>ds. [Text ''Page 1:'', Docs ds])),
      AwaitLog (lift_pure (getPage (feed_docs eng ''page 2'') 2) (\<lambda>ds. [Text ''Page 2:'', Docs ds])),
      Log [Text (nl ''--- Task 4: Aggregation Pipelines ---'')],
      Log [Text (nl ''1) Average price of books by genre:'')],
      AwaitLog (\<lambda>c. (Inr [GenreRows (avgPriceByGenre (feed_genres eng) c)], c)),
      Log [Text (nl ''2) Author with the most books:'')],
      AwaitLog (\<lambda>c. (Inr [AuthorRows (topAuthor (feed_authors eng) c)], c)),
      Log [Text (nl ''3) Group books by publication decade and count them:'')],
      AwaitLog (lift_pure (byDecade (feed_decades eng)) (\<lambda>rs. [DecadeRows rs])),
      Log [Text (nl ''--- Task 5: Indexing ---'')],
      Log [Text (nl ''Explain plan for sample title query BEFORE creating index:'')],
      AwaitLog (explain eng ''sampleQuery''),
      Log [Text (nl ''Creating index: { title: 1 } (name: idx_title_1)'')],
      Await (\<lambda>c. case createIndex [(''title'', 1)] ''idx_title_1'' c of
               (Inl e, c') \<Rightarrow> (Inl e, c') | (Inr n, c') \<Rightarrow> (Inr (), c')),
      Log [Text (''Creating compound index: { author: 1, published_year: -1 } ''
                 @ ''(name: idx_author_publishedYear)'')],
      Await (\<lambda>c. case createIndex [(''author'', 1), (''published_year'', - 1)]
                     ''idx_author_publishedYear'' c of
               (Inl e, c') \<Rightarrow> (Inl e, c') | (Inr n, c') \<Rightarrow> (Inr (), c')),
      Log [Text (nl ''Explain plan for sample title query AFTER creating index:'')],
      AwaitLog (explain eng ''sampleQuery''),
      Log [Text (nl ''Explain plan for query using author + published_year (compound index):'')],
      AwaitLog (explain eng ''authorQuery''),
      Log [Text (nl (''--- All tasks completed ---'' @ [CHR 0x0A]))]]"

definition run :: "engine \<Rightarrow> string option \<Rightarrow> process \<Rightarrow> (error + unit) \<times> process" where
  "run eng env w =
     (case new_MongoClient eng (MONGODB_URI env) of
        Some e \<Rightarrow> (Inl e, w)
      | None \<Rightarrow> try_catch_finally eng (run_body eng) ''Error during queries.js run:'' w)"

definition queries :: "engine \<Rightarrow> string option \<Rightarrow> collection \<Rightarrow> process" where
  "queries eng env c = top_level (run eng env (start c))"

section \<open>Reference definitions for the aggregation claims\<close>

text \<open>
  These three follow the words of the specification, not the code; the pipelines above
  are compared with them. The price values of some documents are the numbers stored
  under \<open>price\<close> (a document without one contributes nothing); their arithmetic mean
  is the sum over the count, and null when there is none; the titles of some documents
  are the values stored under \<open>title\<close>, in order.
\<close>

definition spec_price_values :: "doc list \<Rightarrow> rat list" where
  "spec_price_values ds =
     concat (map (\<lambda>d. case map_of d ''price'' of Some (Num p) \<Rightarrow> [p] | _ \<Rightarrow> []) ds)"

definition spec_mean :: "rat list \<Rightarrow> bval" where
  "spec_mean ps = (if ps = [] then Null else Num (sum_list ps / of_nat (length ps)))"

definition spec_titles :: "doc list \<Rightarrow> bval list" where
  "spec_titles ds =
     concat (map (\<lambda>d. case map_of d ''title'' of None \<Rightarrow> [] | Some v \<Rightarrow> [v]) ds)"

section \<open>Properties of the single operations\<close>

subsection \<open>The seeded collection\<close>


subsection \<open>Reading and setting a field\<close>

lemma map_of_set_field_same: "map_of (set_field f v d) f = Some v"
proof (cases "f \<in> fst ` set d")
  case True
  then have "map_of (map (\<lambda>kv. if fst kv = f then (f, v) else kv) d) f = Some v"
    by (induction d) auto
  with True show ?thesis by (simp add: set_field_def)
next
  case False
  then have "map_of d f = None" by (simp add: map_of_eq_None_iff)
  with False show ?thesis by (simp add: set_field_def map_add_def)
qed

lemma map_of_set_field_other: "g \<noteq> f \<Longrightarrow> map_of (set_field f v d) g = map_of d g"
proof -
  assume g: "g \<noteq> f"
  have "map_of (map (\<lambda>kv. if fst kv = f then (f, v) else kv) d) g = map_of d g"
    using g by (induction d) auto
  with g show ?thesis by (auto simp add: set_field_def map_add_def split: option.splits)
qed

lemma update_first_none:
  "\<forall>x\<in>set ds. \<not> p x \<Longrightarrow> update_first p u rd ds = (None, ds)"
  by (induction ds) auto

lemma update_first_hit:
  "\<forall>x\<in>set pre. \<not> p x \<Longrightarrow> p d \<Longrightarrow>
     update_first p u After (pre @ d # post) = (Some (u d), pre @ u d # post)"
  by (induction pre) auto

lemma length_update_first: "length (snd (update_first p u rd ds)) = length ds"
  by (induction ds) (auto split: prod.splits)

text \<open>
  Claim C1. \<open>updatePriceByTitle(title, price)\<close> sets the price of the first document
  (in natural order) whose title is the given string and returns that document as it is
  after the update: its \<open>price\<close> is the new price and every other field is as before.
  When no document has the title it returns null and the collection is unchanged. In
  both cases the number of documents is unchanged: no document is created.
\<close>

theorem updatePriceByTitle_first_match:
  "(docs c = pre @ d # post \<and> eq_str ''title'' t d \<and> (\<forall>x\<in>set pre. \<not> eq_str ''title'' t x) \<longrightarrow>
      updatePriceByTitle t p c =
        (Some (set_field ''price'' (Num p) d),
         c\<lparr>docs := pre @ set_field ''price'' (Num p) d # post\<rparr>)
      \<and> map_of (set_field ''price'' (Num p) d) ''price'' = Some (Num p)
      \<and> (\<forall>g. g \<noteq> ''price'' \<longrightarrow> map_of (set_field ''price'' (Num p) d) g = map_of d g))
   \<and> ((\<forall>x\<in>set (docs c). \<not> eq_str ''title'' t x) \<longrightarrow> updatePriceByTitle t p c = (None, c))
   \<and> length (docs (snd (updatePriceByTitle t p c))) = length (docs c)"
proof (intro conjI impI)
  assume h: "docs c = pre @ d # post \<and> eq_str ''title'' t d
    \<and> (\<forall>x\<in>set pre. \<not> eq_str ''title'' t x)"
  then show "updatePriceByTitle t p c =
        (Some (set_field ''price'' (Num p) d),
         c\<lparr>docs := pre @ set_field ''price'' (Num p) d # post\<rparr>)"
    by (simp add: updatePriceByTitle_def findOneAndUpdate_def update_first_hit)
  show "map_of (set_field ''price'' (Num p) d) ''price'' = Some (Num p)"
    by (rule map_of_set_field_same)
  show "\<forall>g. g \<noteq> ''price'' \<longrightarrow> map_of (set_field ''price'' (Num p) d) g = map_of d g"
    by (simp add: map_of_set_field_other)
next
  assume "\<forall>x\<in>set (docs c). \<not> eq_str ''title'' t x"
  then show "updatePriceByTitle t p c = (None, c)"
    by (simp add: updatePriceByTitle_def findOneAndUpdate_def update_first_none)
next
  show "length (docs (snd (updatePriceByTitle t p c))) = length (docs c)"
    using length_update_first [of "eq_str ''title'' t" "set_field ''price'' (Num p)" After "docs c"]
    by (simp add: updatePriceByTitle_def findOneAndUpdate_def split_beta)
qed

theorem updatePriceByTitle_first_match_witness:
  "updatePriceByTitle ''The Silent Orchard'' (1249 / 100)
      \<lparr>docs = [book ''Galaxies Apart'' ''Maya Chen'' ''Science Fiction'' 2012 12 False 410
                 ''Orbit House'',
               book ''The Silent Orchard'' ''Ava Harper'' ''Fiction'' 2018 (1499 / 100) True 320
                 ''Harbor Press''],
       next_oid = 0, indexes = []\<rparr>
   = (Some (book ''The Silent Orchard'' ''Ava Harper'' ''Fiction'' 2018 (1249 / 100) True 320
              ''Harbor Press''),
      \<lparr>docs = [book ''Galaxies Apart'' ''Maya Chen'' ''Science Fiction'' 2012 12 False 410
                 ''Orbit House'',
               book ''The Silent Orchard'' ''Ava Harper'' ''Fiction'' 2018 (1249 / 100) True 320
                 ''Harbor Press''],
       next_oid = 0, indexes = []\<rparr>)
   \<and> updatePriceByTitle ''No Such Title'' 5
      \<lparr>docs = [book ''Galaxies Apart'' ''Maya Chen'' ''Science Fiction'' 2012 12 False 410
                 ''Orbit House''],
       next_oid = 0, indexes = []\<rparr>
   = (None,
      \<lparr>docs = [book ''Galaxies Apart'' ''Maya Chen'' ''Science Fiction'' 2012 12 False 410
                 ''Orbit House''],
       next_oid = 0, indexes = []\<rparr>)"
  using updatePriceByTitle_first_match
    [of "\<lparr>docs = [book ''Galaxies Apart'' ''Maya Chen'' ''Science Fiction'' 2012 12 False 410
                    ''Orbit House'',
                  book ''The Silent Orchard'' ''Ava Harper'' ''Fiction'' 2018 (1499 / 100) True
                    320 ''Harbor Press''],
          next_oid = 0, indexes = []\<rparr>"
        "[book ''Galaxies Apart'' ''Maya Chen'' ''Science Fiction'' 2012 12 False 410
            ''Orbit House'']"
        "book ''The Silent Orchard'' ''Ava Harper'' ''Fiction'' 2018 (1499 / 100) True 320
           ''Harbor Press''"
        "[]" "''The Silent Orchard''" "1249 / 100"]
    updatePriceByTitle_first_match
    [of "\<lparr>docs = [book ''Galaxies Apart'' ''Maya Chen'' ''Science Fiction'' 2012 12 False 410
                    ''Orbit House''],
          next_oid = 0, indexes = []\<rparr>" "[]" "[]" "[]" "''No Such Title''" 5]
  by (simp add: book_def eq_str_def set_field_def)

text \<open>
  Claim C3. On the collection that seeding an empty collection gives,
  \<open>findPublishedAfter(2015)\<close> returns the six documents published in 2018, 2021, 2016,
  2019, 2020 and 2022 (in natural order), each reduced to its title and year. In
  general the result is the projection of exactly the documents whose
  \<open>published_year\<close> is a number strictly greater than the threshold, and a projected
  document has no \<open>_id\<close>.
\<close>

theorem findPublishedAfter_2015_fixture:
  "findPublishedAfter 2015 (snd (insertMany sampleBooks True empty_collection)) =
     Inr [[(''title'', Str ''The Silent Orchard''), (''published_year'', Num 2018)],
          [(''title'', Str ''Learning MongoDB''), (''published_year'', Num 2021)],
          [(''title'', Str ''Mysteries of Grey Manor''), (''published_year'', Num 2016)],
          [(''title'', Str ''Romance on 5th Avenue''), (''published_year'', Num 2019)],
          [(''title'', Str ''Echoes of Tomorrow''), (''published_year'', Num 2020)],
          [(''title'', Str ''Shadows Under the Ivy''), (''published_year'', Num 2022)]]
   \<and> findPublishedAfter y c =
       Inr (map (project [''title'', ''published_year''])
              (filter (gt_num ''published_year'' y) (docs c)))
   \<and> gt_num ''published_year'' y d = (\<exists>x. map_of d ''published_year'' = Some (Num x) \<and> y < x)
   \<and> map_of (project [''title'', ''published_year''] d) ''_id'' = None"
proof (intro conjI)
  show "findPublishedAfter 2015 (snd (insertMany sampleBooks True empty_collection)) =
     Inr [[(''title'', Str ''The Silent Orchard''), (''published_year'', Num 2018)],
          [(''title'', Str ''Learning MongoDB''), (''published_year'', Num 2021)],
          [(''title'', Str ''Mysteries of Grey Manor''), (''published_year'', Num 2016)],
          [(''title'', Str ''Romance on 5th Avenue''), (''published_year'', Num 2019)],
          [(''title'', Str ''Echoes of Tomorrow''), (''published_year'', Num 2020)],
          [(''title'', Str ''Shadows Under the Ivy''), (''published_year'', Num 2022)]]"
    by code_simp
  show "findPublishedAfter y c =
       Inr (map (project [''title'', ''published_year''])
              (filter (gt_num ''published_year'' y) (docs c)))"
    by (simp add: findPublishedAfter_def toArray_def find_def)
  show "gt_num ''published_year'' y d
      = (\<exists>x. map_of d ''published_year'' = Some (Num x) \<and> y < x)"
    by (auto simp add: gt_num_def split: option.splits bval.splits)
  show "map_of (project [''title'', ''published_year''] d) ''_id'' = None"
    by (induction d) (auto simp add: project_def)
qed

text \<open>
  Claim C10. \<open>getPage\<close> checks nothing: the skip is \<open>(N - 1) * 5\<close> whatever \<open>N\<close> is. For
  \<open>N = 1\<close> it is 0. For \<open>N \<le> 0\<close> it is negative, and the read fails with the server's
  refusal of a negative skip; no empty or clamped page comes back. For \<open>N \<ge> 1\<close> the read
  returns a page.
\<close>

theorem getPage_negative_skip:
  "(n \<le> 0 \<longrightarrow> getPage feed n c = Inl (NegativeSkip ((n - 1) * 5)))
   \<and> (1 \<le> n \<longrightarrow> (\<exists>ds. getPage feed n c = Inr ds))
   \<and> getPage feed 1 c =
       toArray feed
         (cursor_limit 5 (cursor_skip 0 (cursor_sort (''title'', 1)
            (find match_all [''title'', ''author''])))) c"
  by (simp add: getPage_def pageSize_def toArray_def cursor_limit_def cursor_skip_def
      cursor_sort_def find_def Let_def)

theorem getPage_negative_skip_witness:
  "getPage (\<lambda>ds. ds) 0 empty_collection = Inl (NegativeSkip (- 5))
   \<and> getPage (\<lambda>ds. ds) (- 3) empty_collection = Inl (NegativeSkip (- 20))
   \<and> getPage (\<lambda>ds. ds) 1 empty_collection = Inr []"
  using getPage_negative_skip [of 0 "\<lambda>ds. ds" empty_collection]
    getPage_negative_skip [of "- 3" "\<lambda>ds. ds" empty_collection]
    getPage_negative_skip [of 1 "\<lambda>ds. ds" empty_collection]
  by (auto simp add: getPage_def pageSize_def toArray_def cursor_limit_def cursor_skip_def
      cursor_sort_def find_def Let_def empty_collection_def sort_docs_def)

subsection \<open>Ordered batches and the seeder\<close>












subsection \<open>Sorted reads\<close>

lemma bson_key_inj: "bson_key a = bson_key b \<Longrightarrow> a = b"
  by (cases a; cases b) (auto split: if_splits)

lemma distinct_sort_field:
  "distinct (map (field f) ds) \<Longrightarrow> inj_on (sort_field f) (set ds)"
proof -
  assume d: "distinct (map (field f) ds)"
  then have "inj_on (field f) (set ds)" by (simp add: distinct_map)
  then show ?thesis
    unfolding inj_on_def sort_field_def by (auto dest: bson_key_inj)
qed

lemma sort_key_feed_unique:
  assumes "mset ys = mset xs" and "inj_on k (set xs)"
  shows "sort_key k ys = sort_key k xs"
proof -
  have "sort_key k xs = sort_key k ys"
    by (rule sort_key_inj_key_eq) (use assms in simp_all)
  then show ?thesis by simp
qed

lemma mset_sort_desc: "mset (sort_desc k xs) = mset xs"
  by (simp add: sort_desc_def)

lemma sorted_sort_desc: "sorted (rev (map k (sort_desc k xs)))"
  by (simp add: sort_desc_def rev_map [symmetric])



lemma filter_match_all: "filter match_all ds = ds"
  by (rule filter_True) (simp add: match_all_def)

lemma map_of_project: "f \<in> set fs \<Longrightarrow> map_of (project fs d) f = map_of d f"
  by (induction d) (auto simp add: project_def)

lemma field_project: "f \<in> set fs \<Longrightarrow> field f (project fs d) = field f d"
  by (simp add: field_def map_of_project)


lemma getPage_unfold:
  "1 \<le> n \<Longrightarrow>
     getPage feed n c =
       Inr (map (project [''title'', ''author''])
              (take 5 (drop (nat ((n - 1) * 5))
                 (sort_key (sort_field ''title'') (feed (docs c))))))"
  by (simp add: getPage_def pageSize_def toArray_def cursor_limit_def cursor_skip_def
      cursor_sort_def find_def Let_def sort_docs_def filter_match_all)


text \<open>
  Claim C4 (as amended). For every page number \<open>N \<ge> 1\<close>, \<open>getPage(N)\<close> returns the
  documents at offsets \<open>(N - 1) * 5\<close> to \<open>(N - 1) * 5 + 4\<close> of an arrangement of the whole
  collection in ascending order of title, each reduced to title and author. When the
  titles of the collection are pairwise distinct, that arrangement is the only one, pages
  1 and 2 share no document and no title, and together they are the first ten titles in
  order (five each when the collection has at least ten documents).
\<close>

theorem getPage_offsets:
  "(mset (feed (docs c)) = mset (docs c) \<and> 1 \<le> n \<longrightarrow>
      (\<exists>S. mset S = mset (docs c) \<and> sorted (map (sort_field ''title'') S)
         \<and> getPage feed n c =
             Inr (map (project [''title'', ''author'']) (take 5 (drop (nat ((n - 1) * 5)) S)))))
   \<and> (mset (feed1 (docs c)) = mset (docs c) \<and> mset (feed2 (docs c)) = mset (docs c)
        \<and> distinct (map (field ''title'') (docs c)) \<longrightarrow>
      (\<exists>p1 p2. getPage feed1 1 c = Inr p1 \<and> getPage feed2 2 c = Inr p2
         \<and> p1 @ p2 = map (project [''title'', ''author''])
                       (take 10 (sort_key (sort_field ''title'') (docs c)))
         \<and> map (field ''title'') (p1 @ p2)
             = take 10 (map (field ''title'') (sort_key (sort_field ''title'') (docs c)))
         \<and> distinct (map (field ''title'') (p1 @ p2))
         \<and> set p1 \<inter> set p2 = {}
         \<and> (10 \<le> length (docs c) \<longrightarrow> length p1 = 5 \<and> length p2 = 5)))"
proof (intro conjI impI)
  assume h: "mset (feed (docs c)) = mset (docs c) \<and> 1 \<le> n"
  let ?S = "sort_key (sort_field ''title'') (feed (docs c))"
  have "mset ?S = mset (docs c)" using h by simp
  moreover have "sorted (map (sort_field ''title'') ?S)" by simp
  moreover have "getPage feed n c =
      Inr (map (project [''title'', ''author'']) (take 5 (drop (nat ((n - 1) * 5)) ?S)))"
    using h by (simp add: getPage_unfold)
  ultimately show "\<exists>S. mset S = mset (docs c) \<and> sorted (map (sort_field ''title'') S)
         \<and> getPage feed n c =
             Inr (map (project [''title'', ''author'']) (take 5 (drop (nat ((n - 1) * 5)) S)))"
    by (intro exI [of _ ?S] conjI)
next
  assume h: "mset (feed1 (docs c)) = mset (docs c) \<and> mset (feed2 (docs c)) = mset (docs c)
        \<and> distinct (map (field ''title'') (docs c))"
  let ?k = "sort_field ''title''"
  let ?S = "sort_key ?k (docs c)"
  let ?pr = "project [''title'', ''author'']"
  have inj: "inj_on ?k (set (docs c))" using h by (simp add: distinct_sort_field)
  have s1: "sort_key ?k (feed1 (docs c)) = ?S"
    by (rule sort_key_feed_unique) (use h inj in simp_all)
  have s2: "sort_key ?k (feed2 (docs c)) = ?S"
    by (rule sort_key_feed_unique) (use h inj in simp_all)
  let ?p1 = "map ?pr (take 5 ?S)"
  let ?p2 = "map ?pr (take 5 (drop 5 ?S))"
  have g1: "getPage feed1 1 c = Inr ?p1" by (simp add: getPage_unfold s1)
  have g2: "getPage feed2 2 c = Inr ?p2" by (simp add: getPage_unfold s2)
  have "take 10 ?S = take 5 ?S @ take 5 (drop 5 ?S)"
    using take_add [of 5 5 ?S] by simp
  then have app: "?p1 @ ?p2 = map ?pr (take 10 ?S)" by simp
  have ft: "map (field ''title'') (map ?pr xs) = map (field ''title'') xs" for xs
    by (simp add: field_project)
  have titles: "map (field ''title'') (?p1 @ ?p2) = take 10 (map (field ''title'') ?S)"
    by (simp only: app ft take_map)
  have "mset (map (field ''title'') ?S) = mset (map (field ''title'') (docs c))" by simp
  then have "distinct (map (field ''title'') ?S)"
    using h mset_eq_imp_distinct_iff by blast
  then have dist: "distinct (map (field ''title'') (?p1 @ ?p2))"
    by (simp only: titles distinct_take)
  then have "distinct (?p1 @ ?p2)" by (simp only: distinct_map)
  then have disj: "set ?p1 \<inter> set ?p2 = {}" by simp
  have len: "10 \<le> length (docs c) \<longrightarrow> length ?p1 = 5 \<and> length ?p2 = 5" by simp
  show "\<exists>p1 p2. getPage feed1 1 c = Inr p1 \<and> getPage feed2 2 c = Inr p2
         \<and> p1 @ p2 = map (project [''title'', ''author''])
                       (take 10 (sort_key (sort_field ''title'') (docs c)))
         \<and> map (field ''title'') (p1 @ p2)
             = take 10 (map (field ''title'') (sort_key (sort_field ''title'') (docs c)))
         \<and> distinct (map (field ''title'') (p1 @ p2))
         \<and> set p1 \<inter> set p2 = {}
         \<and> (10 \<le> length (docs c) \<longrightarrow> length p1 = 5 \<and> length p2 = 5)"
    by (intro exI [of _ ?p1] exI [of _ ?p2] conjI g1 g2 app titles dist disj len)
qed

theorem getPage_offsets_witness:
  "\<exists>p1 p2.
      getPage (\<lambda>ds. ds) 1 (snd (insertMany sampleBooks True empty_collection)) = Inr p1
    \<and> getPage (\<lambda>ds. ds) 2 (snd (insertMany sampleBooks True empty_collection)) = Inr p2
    \<and> map (field ''title'') (p1 @ p2)
        = [Str ''A Short History of Timekeeping'', Str ''Data Patterns in the Wild'',
           Str ''Echoes of Tomorrow'', Str ''Galaxies Apart'', Str ''Learning MongoDB'',
           Str ''Memoirs of a Voyager'', Str ''Mysteries of Grey Manor'',
           Str ''Practical Indexing'', Str ''Romance on 5th Avenue'',
           Str ''Shadows Under the Ivy'']
    \<and> set p1 \<inter> set p2 = {} \<and> length p1 = 5 \<and> length p2 = 5"
proof -
  let ?c = "snd (insertMany sampleBooks True empty_collection)"
  have d: "distinct (map (field ''title'') (docs ?c))" by code_simp
  have l: "10 \<le> length (docs ?c)" by code_simp
  have t: "take 10 (map (field ''title'') (sort_key (sort_field ''title'') (docs ?c)))
        = [Str ''A Short History of Timekeeping'', Str ''Data Patterns in the Wild'',
           Str ''Echoes of Tomorrow'', Str ''Galaxies Apart'', Str ''Learning MongoDB'',
           Str ''Memoirs of a Voyager'', Str ''Mysteries of Grey Manor'',
           Str ''Practical Indexing'', Str ''Romance on 5th Avenue'',
           Str ''Shadows Under the Ivy'']" by code_simp
  have hyp: "mset ((\<lambda>ds. ds) (docs ?c)) = mset (docs ?c)
      \<and> mset ((\<lambda>ds. ds) (docs ?c)) = mset (docs ?c)
      \<and> distinct (map (field ''title'') (docs ?c))"
    by (intro conjI d refl)
  note r = mp [OF conjunct2 [OF getPage_offsets [of "\<lambda>ds. ds" ?c 1 "\<lambda>ds. ds" "\<lambda>ds. ds"]] hyp]
  from r obtain p1 p2 where
    g: "getPage (\<lambda>ds. ds) 1 ?c = Inr p1" "getPage (\<lambda>ds. ds) 2 ?c = Inr p2"
    and ts: "map (field ''title'') (p1 @ p2)
       = take 10 (map (field ''title'') (sort_key (sort_field ''title'') (docs ?c)))"
    and dj: "set p1 \<inter> set p2 = {}"
    and ln: "10 \<le> length (docs ?c) \<longrightarrow> length p1 = 5 \<and> length p2 = 5"
    by (elim exE conjE)
  from ln l have l5: "length p1 = 5" "length p2 = 5" by (simp_all only: simp_thms)
  show ?thesis
    by (intro exI [of _ p1] exI [of _ p2] conjI g dj l5) (simp only: ts t)
qed

text \<open>
  Claim C4, counterexample. After the seeder has run twice every title is stored twice,
  and the third title in order is the last document of page 1 and the first of page 2:
  the pages are not disjoint.
\<close>

theorem getPage_shared_title_counterexample:
  "getPage (\<lambda>ds. ds) 1
     (snd (insertMany sampleBooks True (snd (insertMany sampleBooks True empty_collection)))) =
     Inr [[(''title'', Str ''A Short History of Timekeeping''), (''author'', Str ''Nina Patel'')],
          [(''title'', Str ''A Short History of Timekeeping''), (''author'', Str ''Nina Patel'')],
          [(''title'', Str ''Data Patterns in the Wild''), (''author'', Str ''Samuel Reed'')],
          [(''title'', Str ''Data Patterns in the Wild''), (''author'', Str ''Samuel Reed'')],
          [(''title'', Str ''Echoes of Tomorrow''), (''author'', Str ''Maya Chen'')]]
  \<and> getPage (\<lambda>ds. ds) 2
     (snd (insertMany sampleBooks True (snd (insertMany sampleBooks True empty_collection)))) =
     Inr [[(''title'', Str ''Echoes of Tomorrow''), (''author'', Str ''Maya Chen'')],
          [(''title'', Str ''Galaxies Apart''), (''author'', Str ''Maya Chen'')],
          [(''title'', Str ''Galaxies Apart''), (''author'', Str ''Maya Chen'')],
          [(''title'', Str ''Learning MongoDB''), (''author'', Str ''Samuel Reed'')],
          [(''title'', Str ''Learning MongoDB''), (''author'', Str ''Samuel Reed'')]]"
  by code_simp


text \<open>
  Two documents of one price, scanned in natural order: both directions return them in
  the order of the collection.
\<close>

lemma sortByPrice_equal_prices:
  "sortByPrice (\<lambda>ds. ds) 1
        \<lparr>docs = [[(''_id'', ObjId 2), (''title'', Str ''Galaxies Apart''), (''price'', Num 12)],
                 [(''_id'', ObjId 8), (''title'', Str ''Echoes of Tomorrow''),
                  (''price'', Num 12)],
                 [(''_id'', ObjId 3), (''title'', Str ''The Last Alchemist''),
                  (''price'', Num (999 / 100))]],
         next_oid = 12, indexes = []\<rparr>
     = Inr [[(''title'', Str ''The Last Alchemist''), (''price'', Num (999 / 100))],
            [(''title'', Str ''Galaxies Apart''), (''price'', Num 12)],
            [(''title'', Str ''Echoes of Tomorrow''), (''price'', Num 12)]]
   \<and> sortByPrice (\<lambda>ds. ds) (- 1)
        \<lparr>docs = [[(''_id'', ObjId 2), (''title'', Str ''Galaxies Apart''), (''price'', Num 12)],
                 [(''_id'', ObjId 8), (''title'', Str ''Echoes of Tomorrow''),
                  (''price'', Num 12)],
                 [(''_id'', ObjId 3), (''title'', Str ''The Last Alchemist''),
                  (''price'', Num (999 / 100))]],
         next_oid = 12, indexes = []\<rparr>
     = Inr [[(''title'', Str ''Galaxies Apart''), (''price'', Num 12)],
            [(''title'', Str ''Echoes of Tomorrow''), (''price'', Num 12)],
            [(''title'', Str ''The Last Alchemist''), (''price'', Num (999 / 100))]]"
  by code_simp

subsection \<open>The \<open>$group\<close> stage\<close>

lemma upd_group_keys:
  "map fst (upd_group k i st gs) =
     (if k \<in> set (map fst gs) then map fst gs else map fst gs @ [k])"
proof (induction gs)
  case Nil
  then show ?case by simp
next
  case (Cons g gs)
  obtain k' a where g: "g = (k', a)" by (cases g)
  show ?case
  proof (cases "k' = k")
    case True
    with g show ?thesis by simp
  next
    case False
    with g Cons show ?thesis by (cases "k \<in> fst ` set gs") auto
  qed
qed

lemma upd_group_map_of:
  "map_of (upd_group k i st gs) =
     (map_of gs)(k \<mapsto> st (case map_of gs k of None \<Rightarrow> i | Some a \<Rightarrow> a))"
  by (induction gs) (auto simp add: fun_upd_twist)

lemma group_stage_snoc:
  "group_stage key i st (ds @ [d]) = upd_group (key d) i (st d) (group_stage key i st ds)"
  by (simp add: group_stage_def)

lemma group_stage_Nil: "group_stage key i st [] = []"
  by (simp add: group_stage_def)

lemma group_stage_keys_set: "set (map fst (group_stage key i st ds)) = key ` set ds"
  by (induction ds rule: rev_induct)
    (auto simp add: group_stage_Nil group_stage_snoc upd_group_keys)

lemma group_stage_keys_distinct: "distinct (map fst (group_stage key i st ds))"
  by (induction ds rule: rev_induct)
    (auto simp add: group_stage_Nil group_stage_snoc upd_group_keys)

lemma group_stage_map_of:
  "map_of (group_stage key i st ds) k =
     (if k \<in> key ` set ds
      then Some (foldl (\<lambda>a d. st d a) i (filter (\<lambda>d. key d = k) ds))
      else None)"
proof (induction ds rule: rev_induct)
  case Nil
  then show ?case by (simp add: group_stage_Nil)
next
  case (snoc d ds)
  show ?case
  proof (cases "k = key d")
    case True
    show ?thesis
    proof (cases "key d \<in> key ` set ds")
      case True
      with \<open>k = key d\<close> snoc show ?thesis
        by (simp add: group_stage_snoc upd_group_map_of)
    next
      case False
      then have "filter (\<lambda>x. key x = key d) ds = []"
        by (auto simp add: filter_empty_conv image_iff)
      with False \<open>k = key d\<close> snoc show ?thesis
        by (simp add: group_stage_snoc upd_group_map_of)
    qed
  next
    case False
    with snoc show ?thesis
      by (auto simp add: group_stage_snoc upd_group_map_of)
  qed
qed

lemma group_stage_member:
  "(k, a) \<in> set (group_stage key i st ds) \<Longrightarrow>
     k \<in> key ` set ds \<and> a = foldl (\<lambda>a d. st d a) i (filter (\<lambda>d. key d = k) ds)"
proof -
  assume m: "(k, a) \<in> set (group_stage key i st ds)"
  have "map_of (group_stage key i st ds) k = Some a"
    using m group_stage_keys_distinct [of key i st ds] by simp
  then show ?thesis
    by (simp add: group_stage_map_of split: if_splits)
qed

lemma sum_list_indicator:
  "distinct ks \<Longrightarrow> sum_list (map (\<lambda>k. if x = k then 1 else 0) ks)
     = (if x \<in> set ks then 1 else (0::nat))"
  by (induction ks) auto

lemma sum_list_group_sizes:
  "distinct ks \<Longrightarrow> key ` set ds \<subseteq> set ks \<Longrightarrow>
     sum_list (map (\<lambda>k. length (filter (\<lambda>d. key d = k) ds)) ks) = length ds"
proof (induction ds)
  case Nil
  then show ?case by simp
next
  case (Cons d ds)
  have "sum_list (map (\<lambda>k. length (filter (\<lambda>x. key x = k) (d # ds))) ks)
      = sum_list (map (\<lambda>k. (if key d = k then 1 else 0)
                         + length (filter (\<lambda>x. key x = k) ds)) ks)"
    by (rule arg_cong [where f = sum_list]) auto
  also have "\<dots> = sum_list (map (\<lambda>k. if key d = k then 1 else 0) ks)
      + sum_list (map (\<lambda>k. length (filter (\<lambda>x. key x = k) ds)) ks)"
    by (simp add: sum_list_addf)
  also have "\<dots> = 1 + length ds"
    using Cons by (simp add: sum_list_indicator)
  finally show ?case by simp
qed

subsection \<open>Average price by genre\<close>

lemma genre_fold:
  "foldl (\<lambda>acc d. (case acc of (a, n) \<Rightarrow> (avg_step ''price'' d a, Suc n))) ((s, m), n) xs
     = ((s + sum_list (spec_price_values xs), m + length (spec_price_values xs)),
        n + length xs)"
proof (induction xs arbitrary: s m n)
  case Nil
  then show ?case by (simp add: spec_price_values_def)
next
  case (Cons d xs)
  show ?case
  proof (cases "\<exists>p. map_of d ''price'' = Some (Num p)")
    case True
    then obtain p where p: "map_of d ''price'' = Some (Num p)" by blast
    then have "spec_price_values (d # xs) = p # spec_price_values xs"
      by (simp add: spec_price_values_def)
    moreover from p have "avg_step ''price'' d (s, m) = (s + p, Suc m)"
      by (simp add: avg_step_def)
    ultimately show ?thesis
      by (simp add: Cons.IH add.assoc)
  next
    case False
    then have a: "avg_step ''price'' d (s, m) = (s, m)"
      by (auto simp add: avg_step_def split: option.splits bval.splits)
    from False have "spec_price_values (d # xs) = spec_price_values xs"
      by (auto simp add: spec_price_values_def split: option.splits bval.splits)
    with a show ?thesis by (simp add: Cons.IH)
  qed
qed

lemma genre_ids: "map genre_id (genre_groups ds)
    = map fst (group_stage (field ''genre'') ((0, 0), 0)
        (\<lambda>d (a, n). (avg_step ''price'' d a, Suc n)) ds)"
  by (simp add: genre_groups_def split_beta)

lemma genre_groups_row:
  assumes "r \<in> set (genre_groups ds)"
  shows "genre_count r = length (filter (\<lambda>d. field ''genre'' d = genre_id r) ds)
    \<and> averagePrice r
        = spec_mean (spec_price_values (filter (\<lambda>d. field ''genre'' d = genre_id r) ds))"
proof -
  let ?st = "\<lambda>d (a, n). (avg_step ''price'' d a, Suc n)"
  from assms obtain k a n where
    m: "(k, a, n) \<in> set (group_stage (field ''genre'') ((0, 0), 0) ?st ds)"
    and r: "r = \<lparr>genre_id = k, averagePrice = avg_final a, genre_count = n\<rparr>"
    by (auto simp add: genre_groups_def)
  let ?xs = "filter (\<lambda>d. field ''genre'' d = k) ds"
  from group_stage_member [OF m]
  have "(a, n) = foldl (\<lambda>acc d. ?st d acc) ((0, 0), 0) ?xs" by simp
  also have "\<dots> = ((sum_list (spec_price_values ?xs), length (spec_price_values ?xs)), length ?xs)"
    using genre_fold [of 0 0 0 ?xs] by simp
  finally have an: "a = (sum_list (spec_price_values ?xs), length (spec_price_values ?xs))"
    "n = length ?xs" by simp_all
  have "avg_final a = spec_mean (spec_price_values ?xs)"
    by (simp add: an avg_final_def spec_mean_def)
  with an r show ?thesis by simp
qed

text \<open>
  Claim C6. The first pipeline returns one group per distinct genre value. The count
  of a group is the number of documents of the genre; its average is the arithmetic
  mean of the price values of those documents, where a document without a (numeric)
  price contributes nothing to the sum and nothing to the divisor, and null when the
  genre has no price at all. The groups come in descending order of the average.
  (Prices are exact rationals here; groups with equal averages keep the order in which
  \<open>$group\<close> hands them on.)
\<close>

theorem avgPriceByGenre_mean:
  "(\<forall>rs. mset (feed rs) = mset rs) \<longrightarrow>
     sorted (rev (map (\<lambda>r. bson_key (averagePrice r)) (avgPriceByGenre feed c)))
   \<and> distinct (map genre_id (avgPriceByGenre feed c))
   \<and> genre_id ` set (avgPriceByGenre feed c) = field ''genre'' ` set (docs c)
   \<and> (\<forall>r \<in> set (avgPriceByGenre feed c).
        genre_count r = length (filter (\<lambda>d. field ''genre'' d = genre_id r) (docs c))
      \<and> averagePrice r
          = spec_mean (spec_price_values
              (filter (\<lambda>d. field ''genre'' d = genre_id r) (docs c))))
   \<and> (map_of d ''price'' = None \<longrightarrow>
        spec_price_values (xs @ d # ys) = spec_price_values (xs @ ys))"
proof (intro impI conjI)
  assume perm: "\<forall>rs. mset (feed rs) = mset rs"
  let ?G = "genre_groups (docs c)"
  let ?k = "\<lambda>r. bson_key (averagePrice r)"
  have rows: "avgPriceByGenre feed c = sort_desc ?k (feed ?G)"
    by (simp add: avgPriceByGenre_def)
  have ms: "mset (avgPriceByGenre feed c) = mset ?G"
    using perm by (simp add: rows mset_sort_desc)
  then have st: "set (avgPriceByGenre feed c) = set ?G" by (rule mset_eq_setD)
  show "sorted (rev (map ?k (avgPriceByGenre feed c)))"
    by (simp only: rows sorted_sort_desc)
  have "mset (map genre_id (avgPriceByGenre feed c)) = mset (map genre_id ?G)"
    using ms by simp
  moreover have "distinct (map genre_id ?G)"
    by (simp only: genre_ids group_stage_keys_distinct)
  ultimately show "distinct (map genre_id (avgPriceByGenre feed c))"
    using mset_eq_imp_distinct_iff by blast
  have "genre_id ` set ?G = set (map genre_id ?G)" by simp
  also have "\<dots> = field ''genre'' ` set (docs c)"
    by (simp only: genre_ids group_stage_keys_set)
  finally show "genre_id ` set (avgPriceByGenre feed c) = field ''genre'' ` set (docs c)"
    by (simp only: st)
  show "\<forall>r \<in> set (avgPriceByGenre feed c).
        genre_count r = length (filter (\<lambda>d. field ''genre'' d = genre_id r) (docs c))
      \<and> averagePrice r
          = spec_mean (spec_price_values
              (filter (\<lambda>d. field ''genre'' d = genre_id r) (docs c)))"
    unfolding st by (intro ballI genre_groups_row)
next
  assume "map_of d ''price'' = None"
  then show "spec_price_values (xs @ d # ys) = spec_price_values (xs @ ys)"
    by (simp add: spec_price_values_def)
qed

theorem avgPriceByGenre_mean_witness:
  "avgPriceByGenre (\<lambda>rs. rs)
     \<lparr>docs = [[(''_id'', ObjId 0), (''title'', Str ''A''), (''genre'', Str ''Fiction''),
               (''price'', Num 10)],
              [(''_id'', ObjId 1), (''title'', Str ''B''), (''genre'', Str ''Fiction'')],
              [(''_id'', ObjId 2), (''title'', Str ''C''), (''genre'', Str ''History''),
               (''price'', Num 4)]],
      next_oid = 3, indexes = []\<rparr>
   = [\<lparr>genre_id = Str ''Fiction'', averagePrice = Num 10, genre_count = 2\<rparr>,
      \<lparr>genre_id = Str ''History'', averagePrice = Num 4, genre_count = 1\<rparr>]
   \<and> distinct (map genre_id (avgPriceByGenre (\<lambda>rs. rs)
     \<lparr>docs = [[(''_id'', ObjId 0), (''title'', Str ''A''), (''genre'', Str ''Fiction''),
               (''price'', Num 10)],
              [(''_id'', ObjId 1), (''title'', Str ''B''), (''genre'', Str ''Fiction'')],
              [(''_id'', ObjId 2), (''title'', Str ''C''), (''genre'', Str ''History''),
               (''price'', Num 4)]],
      next_oid = 3, indexes = []\<rparr>))"
proof -
  let ?c = "\<lparr>docs = [[(''_id'', ObjId 0), (''title'', Str ''A''), (''genre'', Str ''Fiction''),
               (''price'', Num 10)],
              [(''_id'', ObjId 1), (''title'', Str ''B''), (''genre'', Str ''Fiction'')],
              [(''_id'', ObjId 2), (''title'', Str ''C''), (''genre'', Str ''History''),
               (''price'', Num 4)]],
      next_oid = 3, indexes = []\<rparr>"
  have e: "avgPriceByGenre (\<lambda>rs. rs) ?c
     = [\<lparr>genre_id = Str ''Fiction'', averagePrice = Num 10, genre_count = 2\<rparr>,
        \<lparr>genre_id = Str ''History'', averagePrice = Num 4, genre_count = 1\<rparr>]"
    by code_simp
  have h: "\<forall>rs::genre_row list. mset ((\<lambda>rs. rs) rs) = mset rs" by simp
  from mp [OF avgPriceByGenre_mean [of "\<lambda>rs. rs" ?c] h]
  have "distinct (map genre_id (avgPriceByGenre (\<lambda>rs. rs) ?c))" by blast
  with e show ?thesis by (rule conjI)
qed

subsection \<open>The author with the most books\<close>

lemma author_fold: "foldl (\<lambda>n d. Suc n) n xs = n + length xs"
  by (induction xs arbitrary: n) auto

lemma author_ids: "map author_id (author_groups ds)
    = map fst (group_stage (field ''author'') 0 (\<lambda>d n. Suc n) ds)"
  by (simp add: author_groups_def split_beta)

lemma author_groups_row:
  assumes "r \<in> set (author_groups ds)"
  shows "author_id r \<in> field ''author'' ` set ds
    \<and> author_count r = length (filter (\<lambda>d. field ''author'' d = author_id r) ds)"
proof -
  from assms obtain k n where
    m: "(k, n) \<in> set (group_stage (field ''author'') 0 (\<lambda>d n. Suc n) ds)"
    and r: "r = \<lparr>author_id = k, author_count = n\<rparr>"
    by (auto simp add: author_groups_def)
  from group_stage_member [OF m] r show ?thesis
    by (simp add: author_fold)
qed

lemma sorted_map_le_last:
  "sorted (map f xs) \<Longrightarrow> x \<in> set xs \<Longrightarrow> f x \<le> f (last xs)"
proof (induction xs)
  case Nil
  then show ?case by simp
next
  case (Cons y ys)
  then show ?case by (cases "ys = []") auto
qed

text \<open>
  Claim C7 (as amended). On a collection that is not empty the second pipeline returns
  exactly one group: an author value of the collection with its number of documents,
  and no author value has more. Which of several authors with the same, largest count
  it is depends on the order in which the groups reach \<open>$sort\<close>, the server's choice.
  On the empty collection it returns no group.
\<close>

theorem topAuthor_max_count:
  "(\<forall>rs. mset (feed rs) = mset rs) \<longrightarrow>
     (docs c = [] \<longrightarrow> topAuthor feed c = [])
   \<and> (docs c \<noteq> [] \<longrightarrow>
        (\<exists>r. topAuthor feed c = [r]
           \<and> author_id r \<in> field ''author'' ` set (docs c)
           \<and> author_count r = length (filter (\<lambda>d. field ''author'' d = author_id r) (docs c))
           \<and> (\<forall>a. length (filter (\<lambda>d. field ''author'' d = a) (docs c)) \<le> author_count r)))"
proof (intro impI conjI)
  assume perm: "\<forall>rs. mset (feed rs) = mset rs"
  assume "docs c = []"
  moreover have "mset (feed []) = mset ([] :: author_row list)" using perm by blast
  ultimately show "topAuthor feed c = []"
    by (simp add: topAuthor_def author_groups_def group_stage_Nil sort_desc_def)
next
  assume perm: "\<forall>rs. mset (feed rs) = mset rs"
  assume ne: "docs c \<noteq> []"
  let ?G = "author_groups (docs c)"
  let ?S = "sort_key author_count (rev (feed ?G))"
  have ms: "mset ?S = mset ?G" using perm by simp
  then have st: "set ?S = set ?G" by (rule mset_eq_setD)
  have "set (map author_id ?G) = field ''author'' ` set (docs c)"
    by (simp only: author_ids group_stage_keys_set)
  with ne have "?G \<noteq> []" by auto
  moreover have "length ?S = length ?G" using ms by (rule mset_eq_length)
  ultimately have sne: "?S \<noteq> []" by (metis length_0_conv)
  then have top: "topAuthor feed c = [last ?S]"
    by (simp add: topAuthor_def sort_desc_def take_Suc hd_rev)
  from sne have "last ?S \<in> set ?G" using st last_in_set by blast
  note row = author_groups_row [OF this]
  have mx: "length (filter (\<lambda>d. field ''author'' d = a) (docs c)) \<le> author_count (last ?S)" for a
  proof (cases "a \<in> field ''author'' ` set (docs c)")
    case True
    then have "a \<in> set (map author_id ?G)"
      by (simp only: author_ids group_stage_keys_set)
    then obtain g where g: "g \<in> set ?G" "author_id g = a" by auto
    from g(1) st have "g \<in> set ?S" by simp
    moreover have "sorted (map author_count ?S)" by simp
    ultimately have "author_count g \<le> author_count (last ?S)"
      by (rule sorted_map_le_last [rotated])
    with author_groups_row [OF g(1)] g(2) show ?thesis by simp
  next
    case False
    then have "filter (\<lambda>d. field ''author'' d = a) (docs c) = []"
      by (auto simp add: filter_empty_conv image_iff)
    then show ?thesis by simp
  qed
  show "\<exists>r. topAuthor feed c = [r]
           \<and> author_id r \<in> field ''author'' ` set (docs c)
           \<and> author_count r = length (filter (\<lambda>d. field ''author'' d = author_id r) (docs c))
           \<and> (\<forall>a. length (filter (\<lambda>d. field ''author'' d = a) (docs c)) \<le> author_count r)"
    using top row mx by (intro exI [of _ "last ?S"] conjI allI) simp_all
qed

text \<open>Claim C7, counterexample. On the empty collection there is no group to return.\<close>

theorem topAuthor_empty_counterexample:
  "topAuthor (\<lambda>rs. rs) empty_collection = []"
  by code_simp

theorem topAuthor_max_count_witness:
  "topAuthor (\<lambda>rs. rs) (snd (insertMany sampleBooks True empty_collection))
     = [\<lparr>author_id = Str ''Samuel Reed'', author_count = 3\<rparr>]
   \<and> topAuthor (\<lambda>rs. rs)
       \<lparr>docs = [[(''_id'', ObjId 0), (''title'', Str ''A''), (''author'', Str ''Ann'')],
                [(''_id'', ObjId 1), (''title'', Str ''B''), (''author'', Str ''Bob'')]],
        next_oid = 2, indexes = []\<rparr>
     = [\<lparr>author_id = Str ''Ann'', author_count = 1\<rparr>]
   \<and> topAuthor rev
       \<lparr>docs = [[(''_id'', ObjId 0), (''title'', Str ''A''), (''author'', Str ''Ann'')],
                [(''_id'', ObjId 1), (''title'', Str ''B''), (''author'', Str ''Bob'')]],
        next_oid = 2, indexes = []\<rparr>
     = [\<lparr>author_id = Str ''Bob'', author_count = 1\<rparr>]
   \<and> topAuthor rev empty_collection = []"
proof -
  have a: "topAuthor (\<lambda>rs. rs) (snd (insertMany sampleBooks True empty_collection))
     = [\<lparr>author_id = Str ''Samuel Reed'', author_count = 3\<rparr>]" by code_simp
  have b: "topAuthor (\<lambda>rs. rs)
       \<lparr>docs = [[(''_id'', ObjId 0), (''title'', Str ''A''), (''author'', Str ''Ann'')],
                [(''_id'', ObjId 1), (''title'', Str ''B''), (''author'', Str ''Bob'')]],
        next_oid = 2, indexes = []\<rparr>
     = [\<lparr>author_id = Str ''Ann'', author_count = 1\<rparr>]" by code_simp
  have c: "topAuthor rev
       \<lparr>docs = [[(''_id'', ObjId 0), (''title'', Str ''A''), (''author'', Str ''Ann'')],
                [(''_id'', ObjId 1), (''title'', Str ''B''), (''author'', Str ''Bob'')]],
        next_oid = 2, indexes = []\<rparr>
     = [\<lparr>author_id = Str ''Bob'', author_count = 1\<rparr>]" by code_simp
  have h: "\<forall>rs::author_row list. mset (rev rs) = mset rs" by simp
  have e: "docs empty_collection = []" by (simp add: empty_collection_def)
  from mp [OF conjunct1 [OF mp [OF topAuthor_max_count [of rev empty_collection] h]] e]
  have d: "topAuthor rev empty_collection = []" .
  from a b c d show ?thesis by (intro conjI)
qed

subsection \<open>The decade histogram\<close>

lemma add_fields_Inr:
  "add_fields f e ds = Inr ds' \<Longrightarrow>
     (\<forall>d\<in>set ds. e d = Inr (projr (e d)))
     \<and> ds' = map (\<lambda>d. set_field f (projr (e d)) d) ds"
proof (induction ds arbitrary: ds')
  case Nil
  then show ?case by simp
next
  case (Cons d ds)
  from Cons.prems obtain v rest where
    v: "e d = Inr v" and rest: "add_fields f e ds = Inr rest"
    and ds': "ds' = set_field f v d # rest"
    by (auto split: sum.splits)
  from Cons.IH [OF rest] v ds' show ?case by simp
qed

lemma add_fields_total:
  "\<forall>d\<in>set ds. \<exists>v. e d = Inr v \<Longrightarrow> \<exists>ds'. add_fields f e ds = Inr ds'"
proof (induction ds)
  case Nil
  then show ?case by simp
next
  case (Cons d ds)
  then obtain v rest where "e d = Inr v" "add_fields f e ds = Inr rest" by auto
  then show ?case by simp
qed

lemma decade_of_Num:
  "field ''published_year'' d = Num y \<Longrightarrow> decade_of d = Inr (Num (of_int \<lfloor>y / 10\<rfloor> * 10))"
  by (simp add: decade_of_def divide_e_def floor_e_def multiply_e_def)

lemma decade_of_Null:
  "field ''published_year'' d = Null \<Longrightarrow> decade_of d = Inr Null"
  by (simp add: decade_of_def divide_e_def floor_e_def multiply_e_def)

lemma decade_of_total:
  "field ''published_year'' d = Null \<or> is_num (field ''published_year'' d) \<Longrightarrow>
     \<exists>v. decade_of d = Inr v"
  by (cases "field ''published_year'' d")
    (auto simp add: decade_of_Num decade_of_Null is_num_def)

lemma field_set_field_same: "field f (set_field f v d) = v"
  by (simp add: field_def map_of_set_field_same)

lemma decade_fold:
  "foldl (\<lambda>acc d. (case acc of (n, ts) \<Rightarrow> (Suc n, push_step ''title'' d ts))) (n, ts)
      (map (\<lambda>d. set_field ''decade'' (g d) d) xs)
     = (n + length xs, ts @ spec_titles xs)"
proof (induction xs arbitrary: n ts)
  case Nil
  then show ?case by (simp add: spec_titles_def)
next
  case (Cons d xs)
  have t: "map_of (set_field ''decade'' (g d) d) ''title'' = map_of d ''title''"
    by (rule map_of_set_field_other) simp
  have p: "push_step ''title'' (set_field ''decade'' (g d) d) ts = ts @ spec_titles [d]"
    by (simp add: push_step_def t spec_titles_def split: option.splits)
  have s: "spec_titles (d # xs) = spec_titles [d] @ spec_titles xs"
    by (simp add: spec_titles_def)
  show ?case by (simp add: Cons.IH p s)
qed

lemma decade_ids: "map decade_id (decade_groups ds)
    = map fst (group_stage (field ''decade'') (0, [])
        (\<lambda>d (n, ts). (Suc n, push_step ''title'' d ts)) ds)"
  by (simp add: decade_groups_def split_beta)

lemma decade_groups_row:
  assumes "r \<in> set (decade_groups (map (\<lambda>d. set_field ''decade'' (g d) d) ds))"
  shows "decade_id r \<in> g ` set ds
    \<and> decade_count r = length (filter (\<lambda>d. g d = decade_id r) ds)
    \<and> titles r = spec_titles (filter (\<lambda>d. g d = decade_id r) ds)"
proof -
  let ?F = "\<lambda>d. set_field ''decade'' (g d) d"
  let ?st = "\<lambda>d (n, ts). (Suc n, push_step ''title'' d ts)"
  from assms obtain k n ts where
    m: "(k, n, ts) \<in> set (group_stage (field ''decade'') (0, []) ?st (map ?F ds))"
    and r: "r = \<lparr>decade_id = k, decade_count = n, titles = ts\<rparr>"
    by (auto simp add: decade_groups_def)
  have flt: "filter (\<lambda>d'. field ''decade'' d' = k) (map ?F ds)
      = map ?F (filter (\<lambda>d. g d = k) ds)"
    by (simp add: filter_map comp_def field_set_field_same)
  from group_stage_member [OF m]
  have k: "k \<in> field ''decade'' ` set (map ?F ds)"
    and "(n, ts) = foldl (\<lambda>acc d. ?st d acc) (0, []) (map ?F (filter (\<lambda>d. g d = k) ds))"
    by (simp_all only: flt)
  then have "(n, ts) = (length (filter (\<lambda>d. g d = k) ds), spec_titles (filter (\<lambda>d. g d = k) ds))"
    using decade_fold [of 0 "[]" g "filter (\<lambda>d. g d = k) ds"] by simp
  moreover from k have "k \<in> g ` set ds"
    by (auto simp add: field_set_field_same)
  ultimately show ?thesis using r by simp
qed

lemma decade_groups_counts:
  "sum_list (map decade_count (decade_groups (map (\<lambda>d. set_field ''decade'' (g d) d) ds)))
     = length ds"
proof -
  let ?F = "\<lambda>d. set_field ''decade'' (g d) d"
  let ?G = "decade_groups (map ?F ds)"
  have eq1: "map decade_count ?G
      = map (\<lambda>r. length (filter (\<lambda>d. g d = decade_id r) ds)) ?G"
    by (rule map_cong) (simp_all add: decade_groups_row)
  have eq2: "map (\<lambda>r. length (filter (\<lambda>d. g d = decade_id r) ds)) ?G
      = map (\<lambda>k. length (filter (\<lambda>d. g d = k) ds)) (map decade_id ?G)"
    by (simp add: comp_def)
  have "sum_list (map decade_count ?G)
      = sum_list (map (\<lambda>k. length (filter (\<lambda>d. g d = k) ds)) (map decade_id ?G))"
    by (simp only: eq1 eq2)
  also have "\<dots> = length ds"
  proof (rule sum_list_group_sizes)
    show "distinct (map decade_id ?G)"
      by (simp only: decade_ids group_stage_keys_distinct)
    have "set (map decade_id ?G) = field ''decade'' ` set (map ?F ds)"
      by (simp only: decade_ids group_stage_keys_set)
    also have "\<dots> = g ` set ds"
      by (auto simp add: field_set_field_same image_iff)
    finally show "g ` set ds \<subseteq> set (map decade_id ?G)" by simp
  qed
  finally show ?thesis .
qed

lemma byDecade_Inr:
  assumes "byDecade feed c = Inr rows"
  shows "\<exists>g. (\<forall>d\<in>set (docs c). decade_of d = Inr (g d))
    \<and> rows = sort_key (\<lambda>r. bson_key (decade_id r))
        (feed (decade_groups (map (\<lambda>d. set_field ''decade'' (g d) d) (docs c))))"
proof -
  from assms obtain ds' where
    a: "add_fields ''decade'' decade_of (docs c) = Inr ds'"
    and r: "rows = sort_key (\<lambda>r. bson_key (decade_id r)) (feed (decade_groups ds'))"
    by (auto simp add: byDecade_def split: sum.splits)
  from add_fields_Inr [OF a] r show ?thesis
    by (intro exI [of _ "\<lambda>d. projr (decade_of d)"]) simp
qed

text \<open>
  Claim C5. The decade of a document whose \<open>published_year\<close> is the number \<open>y\<close> is
  \<open>floor(y / 10) * 10\<close>. Whenever the third pipeline returns, its groups are in
  ascending order of decade, no decade comes twice, every document of the collection
  belongs to exactly one group (the one of its decade), the count of a group is the
  number of its documents and its titles are theirs, and the counts add up to the size
  of the collection. The pipeline returns whenever every \<open>published_year\<close> is a number
  or is null or missing (such documents form the group of the null decade); a year of
  another type is an error of \<open>$divide\<close>.
\<close>

theorem byDecade_histogram:
  "(\<forall>rs. mset (feed rs) = mset rs) \<longrightarrow>
     (byDecade feed c = Inr rows \<longrightarrow>
        sorted (map (\<lambda>r. bson_key (decade_id r)) rows)
      \<and> distinct (map decade_id rows)
      \<and> (\<forall>d\<in>set (docs c). \<exists>!r. r \<in> set rows \<and> decade_of d = Inr (decade_id r))
      \<and> (\<forall>r\<in>set rows.
            0 < decade_count r
          \<and> decade_count r
              = length (filter (\<lambda>d. decade_of d = Inr (decade_id r)) (docs c))
          \<and> titles r = spec_titles (filter (\<lambda>d. decade_of d = Inr (decade_id r)) (docs c)))
      \<and> sum_list (map decade_count rows) = length (docs c))
   \<and> ((\<forall>d\<in>set (docs c).
          field ''published_year'' d = Null \<or> is_num (field ''published_year'' d)) \<longrightarrow>
        (\<exists>rs. byDecade feed c = Inr rs))
   \<and> (field ''published_year'' d = Num y \<longrightarrow>
        decade_of d = Inr (Num (of_int \<lfloor>y / 10\<rfloor> * 10)))"
proof (intro impI conjI)
  assume perm: "\<forall>rs. mset (feed rs) = mset rs"
  assume res: "byDecade feed c = Inr rows"
  from byDecade_Inr [OF res] obtain g where
    g: "\<forall>d\<in>set (docs c). decade_of d = Inr (g d)"
    and rows: "rows = sort_key (\<lambda>r. bson_key (decade_id r))
        (feed (decade_groups (map (\<lambda>d. set_field ''decade'' (g d) d) (docs c))))"
    by blast
  let ?G = "decade_groups (map (\<lambda>d. set_field ''decade'' (g d) d) (docs c))"
  have ms: "mset rows = mset ?G" using perm by (simp add: rows)
  then have st: "set rows = set ?G" by (rule mset_eq_setD)
  show "sorted (map (\<lambda>r. bson_key (decade_id r)) rows)" by (simp add: rows)
  have "mset (map decade_id rows) = mset (map decade_id ?G)" using ms by simp
  moreover have "distinct (map decade_id ?G)"
    by (simp only: decade_ids group_stage_keys_distinct)
  ultimately show dist: "distinct (map decade_id rows)"
    using mset_eq_imp_distinct_iff by blast
  have flt: "filter (\<lambda>d. g d = k) (docs c) = filter (\<lambda>d. decade_of d = Inr k) (docs c)" for k
    by (rule filter_cong) (use g in auto)
  have ids: "decade_id ` set ?G = g ` set (docs c)"
  proof -
    have "decade_id ` set ?G = set (map decade_id ?G)" by simp
    also have "\<dots> = field ''decade'' ` set (map (\<lambda>d. set_field ''decade'' (g d) d) (docs c))"
      by (simp only: decade_ids group_stage_keys_set)
    also have "\<dots> = g ` set (docs c)"
      by (auto simp add: field_set_field_same image_iff)
    finally show ?thesis .
  qed
  show "\<forall>d\<in>set (docs c). \<exists>!r. r \<in> set rows \<and> decade_of d = Inr (decade_id r)"
  proof
    fix d assume d: "d \<in> set (docs c)"
    then have "g d \<in> decade_id ` set ?G" by (simp add: ids)
    then obtain r where r: "r \<in> set ?G" "decade_id r = g d" by auto
    show "\<exists>!r. r \<in> set rows \<and> decade_of d = Inr (decade_id r)"
    proof (rule ex1I [of _ r])
      show "r \<in> set rows \<and> decade_of d = Inr (decade_id r)"
        using r d g st by simp
    next
      fix r' assume r': "r' \<in> set rows \<and> decade_of d = Inr (decade_id r')"
      with d g r have "decade_id r' = decade_id r" by simp
      moreover have "inj_on decade_id (set rows)" using dist by (simp add: distinct_map)
      ultimately show "r' = r" using r' r(1) st by (auto dest: inj_onD)
    qed
  qed
  show "\<forall>r\<in>set rows.
            0 < decade_count r
          \<and> decade_count r
              = length (filter (\<lambda>d. decade_of d = Inr (decade_id r)) (docs c))
          \<and> titles r = spec_titles (filter (\<lambda>d. decade_of d = Inr (decade_id r)) (docs c))"
  proof
    fix r assume "r \<in> set rows"
    then have "r \<in> set ?G" by (simp only: st)
    note row = decade_groups_row [OF this]
    from row have "filter (\<lambda>d. g d = decade_id r) (docs c) \<noteq> []"
      by (auto simp add: filter_empty_conv)
    with row show "0 < decade_count r
          \<and> decade_count r
              = length (filter (\<lambda>d. decade_of d = Inr (decade_id r)) (docs c))
          \<and> titles r = spec_titles (filter (\<lambda>d. decade_of d = Inr (decade_id r)) (docs c))"
      by (simp add: flt)
  qed
  have "sum_list (map decade_count rows) = sum_mset (mset (map decade_count rows))"
    by (simp only: sum_mset_sum_list)
  also have "\<dots> = sum_mset (mset (map decade_count ?G))" using ms by simp
  also have "\<dots> = sum_list (map decade_count ?G)" by (simp only: sum_mset_sum_list)
  also have "\<dots> = length (docs c)" by (rule decade_groups_counts)
  finally show "sum_list (map decade_count rows) = length (docs c)" .
next
  assume "\<forall>d\<in>set (docs c).
          field ''published_year'' d = Null \<or> is_num (field ''published_year'' d)"
  then have "\<forall>d\<in>set (docs c). \<exists>v. decade_of d = Inr v"
    by (auto intro: decade_of_total)
  from add_fields_total [OF this, of "''decade''"]
  show "\<exists>rs. byDecade feed c = Inr rs"
    by (auto simp add: byDecade_def)
next
  assume "field ''published_year'' d = Num y"
  then show "decade_of d = Inr (Num (of_int \<lfloor>y / 10\<rfloor> * 10))"
    by (rule decade_of_Num)
qed

theorem byDecade_histogram_witness:
  "byDecade (\<lambda>rs. rs) (snd (insertMany sampleBooks True empty_collection))
     = Inr [\<lparr>decade_id = Num 1990, decade_count = 1,
              titles = [Str ''A Short History of Timekeeping'']\<rparr>,
            \<lparr>decade_id = Num 2000, decade_count = 2,
              titles = [Str ''The Last Alchemist'', Str ''Memoirs of a Voyager'']\<rparr>,
            \<lparr>decade_id = Num 2010, decade_count = 6,
              titles = [Str ''The Silent Orchard'', Str ''Galaxies Apart'',
                        Str ''Mysteries of Grey Manor'', Str ''Romance on 5th Avenue'',
                        Str ''Data Patterns in the Wild'', Str ''Practical Indexing'']\<rparr>,
            \<lparr>decade_id = Num 2020, decade_count = 3,
              titles = [Str ''Learning MongoDB'', Str ''Echoes of Tomorrow'',
                        Str ''Shadows Under the Ivy'']\<rparr>]
   \<and> length (docs (snd (insertMany sampleBooks True empty_collection))) = 1 + 2 + 6 + 3
   \<and> byDecade (\<lambda>rs. rs)
        \<lparr>docs = [[(''_id'', ObjId 0), (''title'', Str ''A''), (''published_year'', Str ''MMXX'')]],
         next_oid = 1, indexes = []\<rparr> = Inl (NonNumeric (Str ''MMXX''))"
proof -
  let ?c = "snd (insertMany sampleBooks True empty_collection)"
  let ?rows = "[\<lparr>decade_id = Num 1990, decade_count = 1,
              titles = [Str ''A Short History of Timekeeping'']\<rparr>,
            \<lparr>decade_id = Num 2000, decade_count = 2,
              titles = [Str ''The Last Alchemist'', Str ''Memoirs of a Voyager'']\<rparr>,
            \<lparr>decade_id = Num 2010, decade_count = 6,
              titles = [Str ''The Silent Orchard'', Str ''Galaxies Apart'',
                        Str ''Mysteries of Grey Manor'', Str ''Romance on 5th Avenue'',
                        Str ''Data Patterns in the Wild'', Str ''Practical Indexing'']\<rparr>,
            \<lparr>decade_id = Num 2020, decade_count = 3,
              titles = [Str ''Learning MongoDB'', Str ''Echoes of Tomorrow'',
                        Str ''Shadows Under the Ivy'']\<rparr>]"
  have e: "byDecade (\<lambda>rs. rs) ?c = Inr ?rows" by code_simp
  have h: "\<forall>rs::decade_row list. mset ((\<lambda>rs. rs) rs) = mset rs" by simp
  from mp [OF conjunct1 [OF mp [OF byDecade_histogram [of "\<lambda>rs. rs" ?c ?rows] h]] e]
  have "sum_list (map decade_count ?rows) = length (docs ?c)" by blast
  then have l: "length (docs ?c) = 1 + 2 + 6 + 3" by simp
  have n: "byDecade (\<lambda>rs. rs)
        \<lparr>docs = [[(''_id'', ObjId 0), (''title'', Str ''A''), (''published_year'', Str ''MMXX'')]],
         next_oid = 1, indexes = []\<rparr> = Inl (NonNumeric (Str ''MMXX''))" by code_simp
  from e l n show ?thesis by (intro conjI)
qed

section \<open>Properties of the two scripts\<close>

lemma await_trace:
  "await eng call w = (r, w') \<Longrightarrow>
     proc_trace w' = proc_trace w @ (case r of Inl e \<Rightarrow> [Rejected e] | Inr v \<Rightarrow> [])"
  by (auto simp add: await_def say_def Let_def split: option.splits prod.splits sum.splits)

lemma await_conn: "await eng call w = (r, w') \<Longrightarrow> conn w' = conn w"
  by (auto simp add: await_def say_def Let_def split: option.splits prod.splits sum.splits)

lemma conn_say: "conn (say e w) = conn w"
  by (simp add: say_def)

lemma perform_trace:
  "perform eng a w = (r, w') \<Longrightarrow>
     \<exists>t. proc_trace w' = proc_trace w @ t @ (case r of Some e \<Rightarrow> [Rejected e] | None \<Rightarrow> [])
       \<and> (\<forall>ev\<in>set t. ev = Connect \<or> (\<exists>vs. ev = ConsoleLog vs))"
proof (cases a)
  case ClientConnect
  assume p: "perform eng a w = (r, w')"
  obtain ra wa where a: "await eng (\<lambda>c. (Inr (), c)) (say Connect w) = (ra, wa)"
    by (cases "await eng (\<lambda>c. (Inr (), c)) (say Connect w)") auto
  from await_trace [OF a]
  have "proc_trace wa = proc_trace w @ [Connect]
      @ (case ra of Inl e \<Rightarrow> [Rejected e] | Inr v \<Rightarrow> [])"
    by (simp add: say_def)
  with p a ClientConnect show ?thesis
    by (intro exI [of _ "[Connect]"]) (auto split: sum.splits)
next
  case (Log vs)
  assume "perform eng a w = (r, w')"
  with Log show ?thesis
    by (intro exI [of _ "[ConsoleLog vs]"]) (auto simp add: say_def)
next
  case (AwaitLog call)
  assume p: "perform eng a w = (r, w')"
  obtain ra wa where a: "await eng call w = (ra, wa)"
    by (cases "await eng call w") auto
  note t = await_trace [OF a]
  show ?thesis
  proof (cases ra)
    case (Inl e)
    with p a t AwaitLog show ?thesis by (intro exI [of _ "[]"]) auto
  next
    case (Inr vs)
    with p a t AwaitLog show ?thesis
      by (intro exI [of _ "[ConsoleLog vs]"]) (auto simp add: say_def)
  qed
next
  case (Await call)
  assume p: "perform eng a w = (r, w')"
  obtain ra wa where a: "await eng call w = (ra, wa)"
    by (cases "await eng call w") auto
  note t = await_trace [OF a]
  from p a t Await show ?thesis
    by (intro exI [of _ "[]"]) (auto split: sum.splits)
qed

lemma perform_all_trace:
  "perform_all eng body w = (r, w') \<Longrightarrow>
     \<exists>t. proc_trace w' = proc_trace w @ t @ (case r of Some e \<Rightarrow> [Rejected e] | None \<Rightarrow> [])
       \<and> (\<forall>ev\<in>set t. ev = Connect \<or> (\<exists>vs. ev = ConsoleLog vs))"
proof (induction body arbitrary: w)
  case Nil
  then show ?case by (intro exI [of _ "[]"]) auto
next
  case (Cons a rest)
  obtain ra wa where a: "perform eng a w = (ra, wa)"
    by (cases "perform eng a w") auto
  from perform_trace [OF a] obtain t1 where
    t1: "proc_trace wa = proc_trace w @ t1 @ (case ra of Some e \<Rightarrow> [Rejected e] | None \<Rightarrow> [])"
    and q1: "\<forall>ev\<in>set t1. ev = Connect \<or> (\<exists>vs. ev = ConsoleLog vs)"
    by blast
  show ?case
  proof (cases ra)
    case (Some e)
    with Cons.prems a have "r = Some e" "w' = wa" by auto
    with t1 q1 Some show ?thesis by (intro exI [of _ t1]) auto
  next
    case None
    with Cons.prems a have "perform_all eng rest wa = (r, w')" by auto
    from Cons.IH [OF this] obtain t2 where
      t2: "proc_trace w' = proc_trace wa @ t2 @ (case r of Some e \<Rightarrow> [Rejected e] | None \<Rightarrow> [])"
      and q2: "\<forall>ev\<in>set t2. ev = Connect \<or> (\<exists>vs. ev = ConsoleLog vs)"
      by blast
    from t1 t2 q1 q2 None show ?thesis by (intro exI [of _ "t1 @ t2"]) auto
  qed
qed

text \<open>The connection: once open, it stays open through the \<open>try\<close> block.\<close>

lemma perform_conn:
  "perform eng a w = (r, w') \<Longrightarrow> conn w = Connected \<Longrightarrow> conn w' = Connected"
proof (cases a)
  case ClientConnect
  assume p: "perform eng a w = (r, w')" and c: "conn w = Connected"
  obtain ra wa where a: "await eng (\<lambda>c. (Inr (), c)) (say Connect w) = (ra, wa)"
    by (cases "await eng (\<lambda>c. (Inr (), c)) (say Connect w)") auto
  from await_conn [OF a] c have "conn wa = Connected" by (simp add: conn_say)
  with p a ClientConnect show ?thesis by (auto split: sum.splits)
next
  case (Log vs)
  assume "perform eng a w = (r, w')" "conn w = Connected"
  with Log show ?thesis by (auto simp add: conn_say)
next
  case (AwaitLog call)
  assume p: "perform eng a w = (r, w')" and c: "conn w = Connected"
  obtain ra wa where a: "await eng call w = (ra, wa)"
    by (cases "await eng call w") auto
  from await_conn [OF a] c have "conn wa = Connected" by simp
  with p a AwaitLog show ?thesis by (auto simp add: conn_say split: sum.splits)
next
  case (Await call)
  assume p: "perform eng a w = (r, w')" and c: "conn w = Connected"
  obtain ra wa where a: "await eng call w = (ra, wa)"
    by (cases "await eng call w") auto
  from await_conn [OF a] c have "conn wa = Connected" by simp
  with p a Await show ?thesis by (auto split: sum.splits)
qed

lemma perform_all_conn:
  "perform_all eng body w = (r, w') \<Longrightarrow> conn w = Connected \<Longrightarrow> conn w' = Connected"
proof (induction body arbitrary: w)
  case Nil
  then show ?case by simp
next
  case (Cons a rest)
  obtain ra wa where a: "perform eng a w = (ra, wa)"
    by (cases "perform eng a w") auto
  from perform_conn [OF a Cons.prems(2)] have c: "conn wa = Connected" .
  show ?case
  proof (cases ra)
    case (Some e)
    with Cons.prems a c show ?thesis by auto
  next
    case None
    with Cons.prems a have "perform_all eng rest wa = (r, w')" by auto
    from Cons.IH [OF this c] show ?thesis .
  qed
qed

lemma connect_first:
  assumes "perform_all eng (ClientConnect # rest) (start c) = (r, w1)"
  shows "(fault eng 0 = None \<and> conn w1 = Connected)
    \<or> (\<exists>e. fault eng 0 = Some e \<and> r = Some e \<and> conn w1 = NotConnected)"
proof (cases "fault eng 0")
  case None
  then have p: "perform eng ClientConnect (start c)
      = (None, \<lparr>proc_trace = [Connect], calls = 1, conn = Connected, col = c\<rparr>)"
    by (simp add: await_def say_def start_def)
  with assms have "perform_all eng rest
      \<lparr>proc_trace = [Connect], calls = 1, conn = Connected, col = c\<rparr> = (r, w1)"
    by simp
  from perform_all_conn [OF this] None show ?thesis by simp
next
  case (Some e)
  then have "perform eng ClientConnect (start c)
      = (Some e, \<lparr>proc_trace = [Connect, Rejected e], calls = 1, conn = NotConnected, col = c\<rparr>)"
    by (simp add: await_def say_def start_def)
  with assms Some show ?thesis by auto
qed

lemma script_trace:
  assumes p: "perform_all eng body (start c) = (r, w1)"
  shows "\<exists>tb. (\<forall>ev\<in>set tb. ev = Connect \<or> (\<exists>vs. ev = ConsoleLog vs))
     \<and> (case r of
          None \<Rightarrow>
            (proc_trace (top_level (try_catch_finally eng body lbl (start c)))
               = tb @ [Close, ConsoleLog [Text ''Connection closed.'']]
             \<and> conn (top_level (try_catch_finally eng body lbl (start c)))
               = (if conn w1 = Connected then Released else conn w1))
          \<or> (\<exists>e2. proc_trace (top_level (try_catch_finally eng body lbl (start c)))
               = tb @ [Close, Rejected e2, Unhandled e2]
             \<and> conn (top_level (try_catch_finally eng body lbl (start c))) = conn w1)
        | Some e \<Rightarrow>
            (proc_trace (top_level (try_catch_finally eng body lbl (start c)))
               = tb @ [Rejected e, ConsoleError [Text lbl, Err e], Close,
                       ConsoleLog [Text ''Connection closed.'']]
             \<and> conn (top_level (try_catch_finally eng body lbl (start c)))
               = (if conn w1 = Connected then Released else conn w1))
          \<or> (\<exists>e2. proc_trace (top_level (try_catch_finally eng body lbl (start c)))
               = tb @ [Rejected e, ConsoleError [Text lbl, Err e], Close, Rejected e2,
                       Unhandled e2]
             \<and> conn (top_level (try_catch_finally eng body lbl (start c))) = conn w1))"
proof -
  from perform_all_trace [OF p] obtain tb where
    tb: "proc_trace w1 = tb @ (case r of Some e \<Rightarrow> [Rejected e] | None \<Rightarrow> [])"
    and q: "\<forall>ev\<in>set tb. ev = Connect \<or> (\<exists>vs. ev = ConsoleLog vs)"
    by (auto simp add: start_def)
  define w2 where
    "w2 = (case r of Some e \<Rightarrow> say (ConsoleError [Text lbl, Err e]) w1 | None \<Rightarrow> w1)"
  obtain rc w3 where a: "await eng (\<lambda>c. (Inr (), c)) (say Close w2) = (rc, w3)"
    by (cases "await eng (\<lambda>c. (Inr (), c)) (say Close w2)") auto
  from await_trace [OF a]
  have t3: "proc_trace w3 = proc_trace w2 @ [Close]
      @ (case rc of Inl e \<Rightarrow> [Rejected e] | Inr v \<Rightarrow> [])"
    by (simp add: say_def)
  have c2: "conn w2 = conn w1"
    by (simp add: w2_def conn_say split: option.splits)
  from await_conn [OF a] have c3: "conn w3 = conn w1"
    by (simp add: conn_say c2)
  have fin: "top_level (try_catch_finally eng body lbl (start c))
      = (case rc of Inl e \<Rightarrow> say (Unhandled e) w3
         | Inr u \<Rightarrow> say (ConsoleLog [Text ''Connection closed.''])
             (w3\<lparr>conn := (if conn w3 = Connected then Released else conn w3)\<rparr>))"
    using p a by (simp add: try_catch_finally_def top_level_def w2_def [symmetric]
        split: sum.splits)
  have t2: "proc_trace w2
      = tb @ (case r of Some e \<Rightarrow> [Rejected e, ConsoleError [Text lbl, Err e]] | None \<Rightarrow> [])"
    by (simp add: w2_def tb say_def split: option.splits)
  show ?thesis
    by (intro exI [of _ tb] conjI q; cases r; cases rc)
      (simp_all add: fin t3 t2 c3 say_def)
qed

lemma script_close_once:
  assumes "new_MongoClient eng uri = None"
  shows "(\<exists>tb. Close \<notin> set tb \<and> (\<forall>e. Rejected e \<notin> set tb)
      \<and> ((proc_trace (top_level (try_catch_finally eng (ClientConnect # rest) lbl (start c)))
             = tb @ [Close, ConsoleLog [Text ''Connection closed.'']]
           \<and> conn (top_level (try_catch_finally eng (ClientConnect # rest) lbl (start c)))
             = Released)
         \<or> (\<exists>e. proc_trace (top_level (try_catch_finally eng (ClientConnect # rest) lbl
                  (start c)))
               = tb @ [Close, Rejected e, Unhandled e]
             \<and> conn (top_level (try_catch_finally eng (ClientConnect # rest) lbl (start c)))
               = Connected)
         \<or> (\<exists>e. proc_trace (top_level (try_catch_finally eng (ClientConnect # rest) lbl
                  (start c)))
               = tb @ [Rejected e, ConsoleError [Text lbl, Err e], Close,
                       ConsoleLog [Text ''Connection closed.'']]
             \<and> conn (top_level (try_catch_finally eng (ClientConnect # rest) lbl (start c)))
               = (if fault eng 0 = None then Released else NotConnected))
         \<or> (\<exists>e e2. proc_trace (top_level (try_catch_finally eng (ClientConnect # rest) lbl
                  (start c)))
               = tb @ [Rejected e, ConsoleError [Text lbl, Err e], Close, Rejected e2,
                       Unhandled e2]
             \<and> conn (top_level (try_catch_finally eng (ClientConnect # rest) lbl (start c)))
               = (if fault eng 0 = None then Connected else NotConnected))))
   \<and> length (filter (\<lambda>ev. ev = Close)
        (proc_trace (top_level (try_catch_finally eng (ClientConnect # rest) lbl (start c)))))
      = 1"
proof -
  let ?fin = "top_level (try_catch_finally eng (ClientConnect # rest) lbl (start c))"
  obtain r w1 where p: "perform_all eng (ClientConnect # rest) (start c) = (r, w1)"
    by (cases "perform_all eng (ClientConnect # rest) (start c)") auto
  from script_trace [OF p, of lbl] obtain tb where
    q: "\<forall>ev\<in>set tb. ev = Connect \<or> (\<exists>vs. ev = ConsoleLog vs)"
    and sh: "case r of
          None \<Rightarrow>
            (proc_trace ?fin = tb @ [Close, ConsoleLog [Text ''Connection closed.'']]
             \<and> conn ?fin = (if conn w1 = Connected then Released else conn w1))
          \<or> (\<exists>e2. proc_trace ?fin = tb @ [Close, Rejected e2, Unhandled e2]
             \<and> conn ?fin = conn w1)
        | Some e \<Rightarrow>
            (proc_trace ?fin
               = tb @ [Rejected e, ConsoleError [Text lbl, Err e], Close,
                       ConsoleLog [Text ''Connection closed.'']]
             \<and> conn ?fin = (if conn w1 = Connected then Released else conn w1))
          \<or> (\<exists>e2. proc_trace ?fin
               = tb @ [Rejected e, ConsoleError [Text lbl, Err e], Close, Rejected e2,
                       Unhandled e2]
             \<and> conn ?fin = conn w1)"
    by blast
  from q have nc: "Close \<notin> set tb" and nr: "\<forall>e. Rejected e \<notin> set tb" by auto
  from nc have f: "filter (\<lambda>ev. ev = Close) tb = []"
    by (auto simp add: filter_empty_conv)
  note cf = connect_first [OF p]
  have shape: "(proc_trace ?fin = tb @ [Close, ConsoleLog [Text ''Connection closed.'']]
           \<and> conn ?fin = Released)
         \<or> (\<exists>e. proc_trace ?fin = tb @ [Close, Rejected e, Unhandled e]
             \<and> conn ?fin = Connected)
         \<or> (\<exists>e. proc_trace ?fin
               = tb @ [Rejected e, ConsoleError [Text lbl, Err e], Close,
                       ConsoleLog [Text ''Connection closed.'']]
             \<and> conn ?fin = (if fault eng 0 = None then Released else NotConnected))
         \<or> (\<exists>e e2. proc_trace ?fin
               = tb @ [Rejected e, ConsoleError [Text lbl, Err e], Close, Rejected e2,
                       Unhandled e2]
             \<and> conn ?fin = (if fault eng 0 = None then Connected else NotConnected))"
  proof (cases r)
    case None
    with cf have "conn w1 = Connected" by auto
    with sh None show ?thesis by auto
  next
    case (Some e)
    from cf have "conn w1 = (if fault eng 0 = None then Connected else NotConnected)"
      by auto
    with sh Some show ?thesis by (cases "fault eng 0 = None") auto
  qed
  then have "length (filter (\<lambda>ev. ev = Close) (proc_trace ?fin)) = 1"
    by (elim disjE exE conjE) (simp_all add: f)
  with nc nr shape show ?thesis by blast
qed

lemma constructor_throws:
  "proc_trace (top_level (Inl e, start c)) = [Unhandled e]
   \<and> conn (top_level (Inl e, start c)) = NotConnected
   \<and> col (top_level (Inl e, start c)) = c"
  by (simp add: top_level_def say_def start_def)

lemma main_body_Cons: "\<exists>rest. main_body env = ClientConnect # rest"
  by (simp add: main_body_def)

lemma run_body_Cons: "\<exists>rest. run_body eng = ClientConnect # rest"
  by (simp add: run_body_def)

text \<open>
  Claim C9 (as amended). When the constructor of the client throws (a malformed
  connection string), the run ends at once: nothing is connected, \<open>close\<close> is not called,
  the collection is untouched and the error reaches the runtime, which reports it. In
  every other run of either script, whatever fails, the history is one of four. The
  \<open>try\<close> block produces a history \<open>tb\<close> without any call of \<open>close\<close> and without any
  rejection; then either nothing failed, or the first rejected call (the connection or
  an operation) ended the block and its error was written with \<open>console.error\<close>. After
  that \<open>client.close()\<close> is called, exactly once. When it resolves, \<open>Connection closed.\<close>
  is logged and a connection that was opened is released (when \<open>connect\<close> itself was
  the rejected call there is none). When it is rejected, an opened connection stays open
  and the rejection goes to the runtime, which reports it. So every rejection is followed
  by a report of the same error.
\<close>

theorem scripts_close_once_and_report:
  "(new_MongoClient eng (MONGODB_URI env) = Some e0 \<longrightarrow>
      proc_trace (insert_books eng env c) = [Unhandled e0]
    \<and> conn (insert_books eng env c) = NotConnected
    \<and> col (insert_books eng env c) = c
    \<and> proc_trace (queries eng env c) = [Unhandled e0]
    \<and> conn (queries eng env c) = NotConnected
    \<and> col (queries eng env c) = c)
   \<and> (new_MongoClient eng (MONGODB_URI env) = None \<longrightarrow>
      (\<exists>tb. Close \<notin> set tb \<and> (\<forall>e. Rejected e \<notin> set tb)
        \<and> ((proc_trace (insert_books eng env c)
               = tb @ [Close, ConsoleLog [Text ''Connection closed.'']]
             \<and> conn (insert_books eng env c) = Released)
           \<or> (\<exists>e. proc_trace (insert_books eng env c) = tb @ [Close, Rejected e, Unhandled e]
               \<and> conn (insert_books eng env c) = Connected)
           \<or> (\<exists>e. proc_trace (insert_books eng env c)
                 = tb @ [Rejected e, ConsoleError [Text ''Error inserting books:'', Err e],
                         Close, ConsoleLog [Text ''Connection closed.'']]
               \<and> conn (insert_books eng env c)
                 = (if fault eng 0 = None then Released else NotConnected))
           \<or> (\<exists>e e2. proc_trace (insert_books eng env c)
                 = tb @ [Rejected e, ConsoleError [Text ''Error inserting books:'', Err e],
                         Close, Rejected e2, Unhandled e2]
               \<and> conn (insert_books eng env c)
                 = (if fault eng 0 = None then Connected else NotConnected))))
    \<and> length (filter (\<lambda>ev. ev = Close) (proc_trace (insert_books eng env c))) = 1
    \<and> (\<exists>tb. Close \<notin> set tb \<and> (\<forall>e. Rejected e \<notin> set tb)
        \<and> ((proc_trace (queries eng env c)
               = tb @ [Close, ConsoleLog [Text ''Connection closed.'']]
             \<and> conn (queries eng env c) = Released)
           \<or> (\<exists>e. proc_trace (queries eng env c) = tb @ [Close, Rejected e, Unhandled e]
               \<and> conn (queries eng env c) = Connected)
           \<or> (\<exists>e. proc_trace (queries eng env c)
                 = tb @ [Rejected e,
                         ConsoleError [Text ''Error during queries.js run:'', Err e],
                         Close, ConsoleLog [Text ''Connection closed.'']]
               \<and> conn (queries eng env c)
                 = (if fault eng 0 = None then Released else NotConnected))
           \<or> (\<exists>e e2. proc_trace (queries eng env c)
                 = tb @ [Rejected e,
                         ConsoleError [Text ''Error during queries.js run:'', Err e],
                         Close, Rejected e2, Unhandled e2]
               \<and> conn (queries eng env c)
                 = (if fault eng 0 = None then Connected else NotConnected))))
    \<and> length (filter (\<lambda>ev. ev = Close) (proc_trace (queries eng env c))) = 1)"
proof (intro conjI impI)
  assume t: "new_MongoClient eng (MONGODB_URI env) = Some e0"
  then have a: "insert_books eng env c = top_level (Inl e0, start c)"
    and b: "queries eng env c = top_level (Inl e0, start c)"
    by (simp_all add: insert_books_def main_def queries_def run_def)
  from constructor_throws [of e0 c]
  show "proc_trace (insert_books eng env c) = [Unhandled e0]"
    "conn (insert_books eng env c) = NotConnected"
    "col (insert_books eng env c) = c"
    "proc_trace (queries eng env c) = [Unhandled e0]"
    "conn (queries eng env c) = NotConnected"
    "col (queries eng env c) = c"
    unfolding a b by blast+
next
  assume t: "new_MongoClient eng (MONGODB_URI env) = None"
  obtain rest1 where m: "main_body env = ClientConnect # rest1"
    using main_body_Cons by blast
  obtain rest2 where r: "run_body eng = ClientConnect # rest2"
    using run_body_Cons by blast
  have a: "insert_books eng env c
      = top_level (try_catch_finally eng (ClientConnect # rest1) ''Error inserting books:''
          (start c))"
    using t by (simp add: insert_books_def main_def m)
  have b: "queries eng env c
      = top_level (try_catch_finally eng (ClientConnect # rest2)
          ''Error during queries.js run:'' (start c))"
    using t by (simp add: queries_def run_def r)
  note s1 = script_close_once [OF t, of rest1 "''Error inserting books:''" c]
  note s2 = script_close_once [OF t, of rest2 "''Error during queries.js run:''" c]
  from s1 show "\<exists>tb. Close \<notin> set tb \<and> (\<forall>e. Rejected e \<notin> set tb)
        \<and> ((proc_trace (insert_books eng env c)
               = tb @ [Close, ConsoleLog [Text ''Connection closed.'']]
             \<and> conn (insert_books eng env c) = Released)
           \<or> (\<exists>e. proc_trace (insert_books eng env c) = tb @ [Close, Rejected e, Unhandled e]
               \<and> conn (insert_books eng env c) = Connected)
           \<or> (\<exists>e. proc_trace (insert_books eng env c)
                 = tb @ [Rejected e, ConsoleError [Text ''Error inserting books:'', Err e],
                         Close, ConsoleLog [Text ''Connection closed.'']]
               \<and> conn (insert_books eng env c)
                 = (if fault eng 0 = None then Released else NotConnected))
           \<or> (\<exists>e e2. proc_trace (insert_books eng env c)
                 = tb @ [Rejected e, ConsoleError [Text ''Error inserting books:'', Err e],
                         Close, Rejected e2, Unhandled e2]
               \<and> conn (insert_books eng env c)
                 = (if fault eng 0 = None then Connected else NotConnected)))"
    unfolding a by (rule conjunct1)
  from s1 show "length (filter (\<lambda>ev. ev = Close) (proc_trace (insert_books eng env c))) = 1"
    unfolding a by (rule conjunct2)
  from s2 show "\<exists>tb. Close \<notin> set tb \<and> (\<forall>e. Rejected e \<notin> set tb)
        \<and> ((proc_trace (queries eng env c)
               = tb @ [Close, ConsoleLog [Text ''Connection closed.'']]
             \<and> conn (queries eng env c) = Released)
           \<or> (\<exists>e. proc_trace (queries eng env c) = tb @ [Close, Rejected e, Unhandled e]
               \<and> conn (queries eng env c) = Connected)
           \<or> (\<exists>e. proc_trace (queries eng env c)
                 = tb @ [Rejected e,
                         ConsoleError [Text ''Error during queries.js run:'', Err e],
                         Close, ConsoleLog [Text ''Connection closed.'']]
               \<and> conn (queries eng env c)
                 = (if fault eng 0 = None then Released else NotConnected))
           \<or> (\<exists>e e2. proc_trace (queries eng env c)
                 = tb @ [Rejected e,
                         ConsoleError [Text ''Error during queries.js run:'', Err e],
                         Close, Rejected e2, Unhandled e2]
               \<and> conn (queries eng env c)
                 = (if fault eng 0 = None then Connected else NotConnected)))"
    unfolding b by (rule conjunct1)
  from s2 show "length (filter (\<lambda>ev. ev = Close) (proc_trace (queries eng env c))) = 1"
    unfolding b by (rule conjunct2)
qed

theorem scripts_close_once_and_report_witness:
  "proc_trace (insert_books
      \<lparr>fault = (\<lambda>n. if n = 1 then Some (ServerError 11600) else None),
       feed_docs = (\<lambda>t ds. ds), feed_genres = (\<lambda>rs. rs), feed_authors = (\<lambda>rs. rs),
       feed_decades = (\<lambda>rs. rs),
       planner = (\<lambda>q c. \<lparr>executionStats = None, queryPlanner = None\<rparr>),
       uri_refused = (\<lambda>u. None)\<rparr>
      None empty_collection)
   = [Connect,
      ConsoleLog [Text ''Connected to MongoDB:'', Text ''mongodb://localhost:27017''],
      Rejected (ServerError 11600),
      ConsoleError [Text ''Error inserting books:'', Err (ServerError 11600)],
      Close,
      ConsoleLog [Text ''Connection closed.'']]
   \<and> length (filter (\<lambda>ev. ev = Close) (proc_trace (queries
      \<lparr>fault = (\<lambda>n. if n = 1 then Some (ServerError 11600) else None),
       feed_docs = (\<lambda>t ds. ds), feed_genres = (\<lambda>rs. rs), feed_authors = (\<lambda>rs. rs),
       feed_decades = (\<lambda>rs. rs),
       planner = (\<lambda>q c. \<lparr>executionStats = None, queryPlanner = None\<rparr>),
       uri_refused = (\<lambda>u. None)\<rparr>
      None empty_collection))) = 1
   \<and> conn (queries
      \<lparr>fault = (\<lambda>n. if n = 1 then Some (ServerError 11600) else None),
       feed_docs = (\<lambda>t ds. ds), feed_genres = (\<lambda>rs. rs), feed_authors = (\<lambda>rs. rs),
       feed_decades = (\<lambda>rs. rs),
       planner = (\<lambda>q c. \<lparr>executionStats = None, queryPlanner = None\<rparr>),
       uri_refused = (\<lambda>u. None)\<rparr>
      (Some ''mongodb+srv//cluster'') empty_collection) = NotConnected"
proof -
  let ?eng = "\<lparr>fault = (\<lambda>n. if n = 1 then Some (ServerError 11600) else None),
       feed_docs = (\<lambda>t ds. ds), feed_genres = (\<lambda>rs. rs), feed_authors = (\<lambda>rs. rs),
       feed_decades = (\<lambda>rs. rs),
       planner = (\<lambda>q c. \<lparr>executionStats = None, queryPlanner = None\<rparr>),
       uri_refused = (\<lambda>u. None)\<rparr>"
  have ok: "new_MongoClient ?eng (MONGODB_URI None) = None"
    by (simp add: new_MongoClient_def MONGODB_URI_def has_scheme_def)
  have bad: "new_MongoClient ?eng (MONGODB_URI (Some ''mongodb+srv//cluster''))
      = Some InvalidScheme"
    by (simp add: new_MongoClient_def MONGODB_URI_def has_scheme_def)
  have tr: "proc_trace (insert_books ?eng None empty_collection)
   = [Connect,
      ConsoleLog [Text ''Connected to MongoDB:'', Text ''mongodb://localhost:27017''],
      Rejected (ServerError 11600),
      ConsoleError [Text ''Error inserting books:'', Err (ServerError 11600)],
      Close,
      ConsoleLog [Text ''Connection closed.'']]"
    by (simp add: insert_books_def main_def new_MongoClient_def has_scheme_def
        try_catch_finally_def top_level_def main_body_def start_def await_def say_def
        MONGODB_URI_def)
  from mp [OF conjunct2 [OF scripts_close_once_and_report [of ?eng None _ empty_collection]] ok]
  have one: "length (filter (\<lambda>ev. ev = Close)
      (proc_trace (queries ?eng None empty_collection))) = 1"
    by blast
  from mp [OF conjunct1 [OF scripts_close_once_and_report
      [of ?eng "Some ''mongodb+srv//cluster''" InvalidScheme empty_collection]] bad]
  have nc: "conn (queries ?eng (Some ''mongodb+srv//cluster'') empty_collection)
      = NotConnected"
    by blast
  from tr one nc show ?thesis by (intro conjI)
qed

text \<open>
  Claim C9, counterexample. With \<open>MONGODB_URI=localhost:27017\<close> (no scheme) the
  constructor throws before the \<open>try\<close>: in neither script is \<open>close\<close> ever called, and
  neither writes anything itself; the error is the runtime's to report.
\<close>

theorem scripts_no_close_counterexample:
  "proc_trace (insert_books
      \<lparr>fault = (\<lambda>n. None), feed_docs = (\<lambda>t ds. ds), feed_genres = (\<lambda>rs. rs),
       feed_authors = (\<lambda>rs. rs), feed_decades = (\<lambda>rs. rs),
       planner = (\<lambda>q c. \<lparr>executionStats = None, queryPlanner = None\<rparr>),
       uri_refused = (\<lambda>u. None)\<rparr>
      (Some ''localhost:27017'') empty_collection) = [Unhandled InvalidScheme]
   \<and> proc_trace (queries
      \<lparr>fault = (\<lambda>n. None), feed_docs = (\<lambda>t ds. ds), feed_genres = (\<lambda>rs. rs),
       feed_authors = (\<lambda>rs. rs), feed_decades = (\<lambda>rs. rs),
       planner = (\<lambda>q c. \<lparr>executionStats = None, queryPlanner = None\<rparr>),
       uri_refused = (\<lambda>u. None)\<rparr>
      (Some ''localhost:27017'') empty_collection) = [Unhandled InvalidScheme]
   \<and> length (filter (\<lambda>ev. ev = Close) [Unhandled InvalidScheme]) = 0"
  by (simp add: insert_books_def main_def queries_def run_def new_MongoClient_def
      MONGODB_URI_def has_scheme_def top_level_def say_def start_def)

end
